theory Spec2Isabelle
  imports Complex_Main
begin

section \<open>The persistent store (db/database.py, db/models.py)\<close>

text \<open>
  The tables of \<^verbatim>\<open>init_db\<close>, one record per row and one list per table, the rows in
  rowid order (the order in which SQLite scans a table). Columns that the modelled code
  never reads (\<^verbatim>\<open>created_at\<close>, the id of a log row) are left out. \<^verbatim>\<open>is_active\<close> is an INTEGER column
  that the code only ever writes as 0 or 1: it is a \<^typ>\<open>bool\<close> here. A REAL column is a
  \<^typ>\<open>real\<close>; NULL is \<^term>\<open>None\<close>. The text of \<^verbatim>\<open>datetime('now')\<close> is supplied by the
  caller.
\<close>

record api_key =
  key_id :: int
  key :: string
  key_index :: int
  vless_id :: "int option"
  is_active :: bool
  pollen_balance :: "real option"
  next_reset_at :: "string option"
  balance_checked_at :: "string option"

record vless_config =
  vless_row_id :: int
  url :: string
  remark :: "string option"
  vless_is_active :: bool
  config_index :: int

record service_token =
  token_id :: int
  token :: string
  token_name :: string
  token_is_active :: bool

record log_entry =
  log_path :: string
  log_method :: string
  log_status :: string
  log_key_id :: "int option"
  log_token_id :: "int option"

record db =
  api_keys :: "api_key list"
  vless_configs :: "vless_config list"
  service_tokens :: "service_token list"
  request_log :: "log_entry list"

subsection \<open>Selecting a credential: \<^verbatim>\<open>get_active_key\<close>\<close>

text \<open>
  \<^verbatim>\<open>WHERE k.is_active = 1 AND (k.pollen_balance IS NULL OR k.pollen_balance >= ?)\<close>
\<close>

definition eligible :: "real \<Rightarrow> api_key \<Rightarrow> bool" where
  "eligible balance_threshold k =
     (is_active k \<and> (case pollen_balance k of None \<Rightarrow> True | Some b \<Rightarrow> balance_threshold \<le> b))"

text \<open>
  \<^verbatim>\<open>ORDER BY k.pollen_balance DESC\<close>: the only sort key is the balance. SQLite orders
  NULL below every number, so under DESC the rows of unknown balance come last.
  \<open>balance_ge a b\<close> says that a row of balance \<open>a\<close> may stand before a row of balance
  \<open>b\<close>. The statement names no second key, so rows of equal balance stay in the order of
  the scan: the sort is an insertion sort that puts a row in front of the rows it ties
  with, folded from the right.
\<close>

fun balance_ge :: "real option \<Rightarrow> real option \<Rightarrow> bool" where
  "balance_ge a None = True"
| "balance_ge None (Some b) = False"
| "balance_ge (Some a) (Some b) = (b \<le> a)"

fun insert_desc :: "api_key \<Rightarrow> api_key list \<Rightarrow> api_key list" where
  "insert_desc x [] = [x]"
| "insert_desc x (y # ys) =
     (if balance_ge (pollen_balance x) (pollen_balance y) then x # y # ys
      else y # insert_desc x ys)"

definition order_by_balance_desc :: "api_key list \<Rightarrow> api_key list" where
  "order_by_balance_desc rows = foldr insert_desc rows []"

text \<open>
  \<^verbatim>\<open>LEFT JOIN vless_configs v ON k.vless_id = v.id\<close>, column
  \<^verbatim>\<open>v.config_index as vless_config_index\<close>: the index of the tunnel the key is bound
  to, NULL when it is bound to none or to a row that is gone. The join does not look at
  the tunnel's \<^verbatim>\<open>is_active\<close>.
\<close>

definition vless_config_index_of :: "db \<Rightarrow> api_key \<Rightarrow> int option" where
  "vless_config_index_of d k =
     (case vless_id k of
        None \<Rightarrow> None
      | Some v \<Rightarrow> map_option config_index (find (\<lambda>c. vless_row_id c = v) (vless_configs d)))"

text \<open>
  The rows are walked in order and the first one whose id is not excluded is returned
  (\<^verbatim>\<open>if exclude_ids and row["id"] in exclude_ids: continue\<close>; an empty or absent set
  excludes nothing).
\<close>

definition get_active_key :: "db \<Rightarrow> real \<Rightarrow> int set \<Rightarrow> (api_key \<times> int option) option" where
  "get_active_key d balance_threshold exclude_ids =
     map_option (\<lambda>k. (k, vless_config_index_of d k))
       (find (\<lambda>k. key_id k \<notin> exclude_ids)
          (order_by_balance_desc (filter (eligible balance_threshold) (api_keys d))))"

text \<open>
  The selection as the specification words it: the same filter, the order "balance
  descending, ties on balance broken by ascending index", the first entry not excluded.
  Unknown balances are put last, as the code has them.
\<close>

definition spec_before :: "api_key \<Rightarrow> api_key \<Rightarrow> bool" where
  "spec_before x y =
     (if pollen_balance x = pollen_balance y then key_index x \<le> key_index y
      else balance_ge (pollen_balance x) (pollen_balance y))"

fun spec_insert :: "api_key \<Rightarrow> api_key list \<Rightarrow> api_key list" where
  "spec_insert x [] = [x]"
| "spec_insert x (y # ys) = (if spec_before x y then x # y # ys else y # spec_insert x ys)"

definition select_best_spec :: "db \<Rightarrow> real \<Rightarrow> int set \<Rightarrow> api_key option" where
  "select_best_spec d threshold excluded_ids =
     find (\<lambda>k. key_id k \<notin> excluded_ids)
       (foldr spec_insert (filter (eligible threshold) (api_keys d)) [])"

text \<open>A row is acceptable to a request when it is eligible and not excluded.\<close>

definition acceptable :: "real \<Rightarrow> int set \<Rightarrow> api_key \<Rightarrow> bool" where
  "acceptable balance_threshold exclude_ids k =
     (eligible balance_threshold k \<and> key_id k \<notin> exclude_ids)"

subsection \<open>The mutations of the proxy path and of the reconciliation loop\<close>

text \<open>\<^verbatim>\<open>UPDATE api_keys SET is_active = 0 WHERE id = ?\<close>\<close>

definition deactivate_key :: "int \<Rightarrow> db \<Rightarrow> db" where
  "deactivate_key kid d =
     d\<lparr>api_keys := map (\<lambda>k. if key_id k = kid then k\<lparr>is_active := False\<rparr> else k) (api_keys d)\<rparr>"

text \<open>
  \<^verbatim>\<open>UPDATE api_keys SET pollen_balance = ?, next_reset_at = ?, balance_checked_at =
  datetime('now') WHERE id = ?\<close>: \<open>now\<close> is the text of \<^verbatim>\<open>datetime('now')\<close>.
\<close>

definition update_key_balance :: "string \<Rightarrow> int \<Rightarrow> real option \<Rightarrow> string option \<Rightarrow> db \<Rightarrow> db" where
  "update_key_balance now kid balance next_reset d =
     d\<lparr>api_keys :=
         map (\<lambda>k. if key_id k = kid
                   then k\<lparr>pollen_balance := balance, next_reset_at := next_reset,
                          balance_checked_at := Some now\<rparr>
                   else k)
           (api_keys d)\<rparr>"

subsection \<open>The other writers of the credential table\<close>

text \<open>
  \<^verbatim>\<open>add_api_key\<close>: \<^verbatim>\<open>SELECT COALESCE(MAX(key_index), -1) + 1 FROM api_keys\<close>, then
  \<^verbatim>\<open>INSERT OR IGNORE INTO api_keys (key, key_index, vless_id)\<close>. The column \<^verbatim>\<open>key\<close> is
  UNIQUE, so a key that the table holds already is ignored. \<open>new_id\<close> is the id that
  AUTOINCREMENT gives the row; the other columns take their defaults. The function
  returns the index.
\<close>

definition next_key_index :: "db \<Rightarrow> int" where
  "next_key_index d =
     (case map key_index (api_keys d) of
        [] \<Rightarrow> - 1
      | i # rest \<Rightarrow> fold max rest i) + 1"

definition add_api_key :: "int \<Rightarrow> string \<Rightarrow> int option \<Rightarrow> db \<Rightarrow> int \<times> db" where
  "add_api_key new_id k v d =
     (let next_index = next_key_index d
      in (next_index,
          if k \<in> set (map key (api_keys d)) then d
          else d\<lparr>api_keys := api_keys d @
                  [\<lparr>key_id = new_id, key = k, key_index = next_index, vless_id = v,
                    is_active = True, pollen_balance = None, next_reset_at = None,
                    balance_checked_at = None\<rparr>]\<rparr>))"

text \<open>\<^verbatim>\<open>DELETE FROM api_keys WHERE id = ?\<close>\<close>

definition delete_api_key :: "int \<Rightarrow> db \<Rightarrow> db" where
  "delete_api_key kid d = d\<lparr>api_keys := filter (\<lambda>k. key_id k \<noteq> kid) (api_keys d)\<rparr>"

text \<open>\<^verbatim>\<open>UPDATE api_keys SET vless_id = ? WHERE id = ?\<close>\<close>

definition bind_key_to_vless :: "int \<Rightarrow> int option \<Rightarrow> db \<Rightarrow> db" where
  "bind_key_to_vless kid v d =
     d\<lparr>api_keys := map (\<lambda>k. if key_id k = kid then k\<lparr>vless_id := v\<rparr> else k) (api_keys d)\<rparr>"

text \<open>\<^verbatim>\<open>UPDATE api_keys SET is_active = 1\<close>\<close>

definition reactivate_keys_after_reset :: "db \<Rightarrow> db" where
  "reactivate_keys_after_reset d = d\<lparr>api_keys := map (\<lambda>k. k\<lparr>is_active := True\<rparr>) (api_keys d)\<rparr>"

text \<open>
  \<^verbatim>\<open>delete_vless\<close>: \<^verbatim>\<open>UPDATE api_keys SET vless_id = NULL WHERE vless_id = ?\<close>, then
  \<^verbatim>\<open>DELETE FROM vless_configs WHERE id = ?\<close>.
\<close>

definition delete_vless :: "int \<Rightarrow> db \<Rightarrow> db" where
  "delete_vless vid d =
     d\<lparr>api_keys := map (\<lambda>k. if vless_id k = Some vid then k\<lparr>vless_id := None\<rparr> else k) (api_keys d),
       vless_configs := filter (\<lambda>c. vless_row_id c \<noteq> vid) (vless_configs d)\<rparr>"

text \<open>
  The stores that the program can produce: the empty tables of \<^verbatim>\<open>init_db\<close>, every
  statement above that writes the credential table, with any arguments, and any write
  to the other tables.
\<close>

inductive reachable :: "db \<Rightarrow> bool" where
  init_db: "reachable \<lparr>api_keys = [], vless_configs = [], service_tokens = [], request_log = []\<rparr>"
| added: "reachable d \<Longrightarrow> reachable (snd (add_api_key new_id k v d))"
| deleted: "reachable d \<Longrightarrow> reachable (delete_api_key kid d)"
| balance_updated: "reachable d \<Longrightarrow> reachable (update_key_balance t kid balance next_reset d)"
| bound: "reachable d \<Longrightarrow> reachable (bind_key_to_vless kid v d)"
| deactivated: "reachable d \<Longrightarrow> reachable (deactivate_key kid d)"
| reactivated: "reachable d \<Longrightarrow> reachable (reactivate_keys_after_reset d)"
| vless_deleted: "reachable d \<Longrightarrow> reachable (delete_vless vid d)"
| other_tables: "reachable d \<Longrightarrow> reachable (d\<lparr>vless_configs := vs, service_tokens := ts, request_log := l\<rparr>)"

text \<open>\<^verbatim>\<open>INSERT INTO request_log (path, method, status, key_id, token_id)\<close>\<close>

definition add_request_log ::
  "string \<Rightarrow> string \<Rightarrow> string \<Rightarrow> int option \<Rightarrow> int option \<Rightarrow> db \<Rightarrow> db" where
  "add_request_log p m st kid tid d =
     d\<lparr>request_log := request_log d @
        [\<lparr>log_path = p, log_method = m, log_status = st, log_key_id = kid, log_token_id = tid\<rparr>]\<rparr>"

text \<open>\<^verbatim>\<open>SELECT * FROM service_tokens WHERE token = ? AND is_active = 1\<close>, \<^verbatim>\<open>fetchone\<close>\<close>

definition get_token_by_value :: "db \<Rightarrow> string \<Rightarrow> service_token option" where
  "get_token_by_value d v = find (\<lambda>t. token t = v \<and> token_is_active t) (service_tokens d)"

subsection \<open>Listing the credentials: \<^verbatim>\<open>get_all_keys\<close>\<close>

text \<open>
  \<^verbatim>\<open>SELECT k.*, v.remark as vless_remark, v.config_index as vless_config_index FROM
  api_keys k LEFT JOIN vless_configs v ON k.vless_id = v.id ORDER BY k.key_index\<close>:
  every row, active or not, in ascending index order (rows of equal index in scan order).
\<close>

record key_row =
  row_key :: api_key
  row_vless_remark :: "string option"
  row_vless_config_index :: "int option"

definition bound_vless :: "db \<Rightarrow> api_key \<Rightarrow> vless_config option" where
  "bound_vless d k =
     (case vless_id k of
        None \<Rightarrow> None
      | Some v \<Rightarrow> find (\<lambda>c. vless_row_id c = v) (vless_configs d))"

definition get_all_keys :: "db \<Rightarrow> key_row list" where
  "get_all_keys d =
     map (\<lambda>k. \<lparr>row_key = k,
               row_vless_remark = (case bound_vless d k of None \<Rightarrow> None | Some c \<Rightarrow> remark c),
               row_vless_config_index = map_option config_index (bound_vless d k)\<rparr>)
       (sort_key key_index (api_keys d))"

section \<open>The ingress proxy (api/server.py)\<close>

subsection \<open>Requests, responses and the upstream\<close>

text \<open>
  Header names are compared in lower case. \<^verbatim>\<open>str.lower\<close> is modelled on the ASCII
  letters, which is all a header name can hold.
\<close>

definition lower_char :: "char \<Rightarrow> char" where
  "lower_char c =
     (case map_of (zip ''ABCDEFGHIJKLMNOPQRSTUVWXYZ'' ''abcdefghijklmnopqrstuvwxyz'') c of
        None \<Rightarrow> c
      | Some l \<Rightarrow> l)"

definition lower :: "string \<Rightarrow> string" where
  "lower s = map lower_char s"

type_synonym headers = "(string \<times> string) list"

text \<open>
  \<^verbatim>\<open>headers.get(name)\<close> on aiohttp's case-insensitive multi-dict: the value of the
  first item of that name.
\<close>

definition header_get :: "headers \<Rightarrow> string \<Rightarrow> string option" where
  "header_get hs name = map_option snd (find (\<lambda>kv. lower (fst kv) = lower name) hs)"

text \<open>\<^verbatim>\<open>d[k] = v\<close> on a Python dict: an existing key keeps its place.\<close>

fun dict_set :: "'k \<Rightarrow> 'v \<Rightarrow> ('k \<times> 'v) list \<Rightarrow> ('k \<times> 'v) list" where
  "dict_set k v [] = [(k, v)]"
| "dict_set k v (p # ps) = (if fst p = k then (k, v) # ps else p # dict_set k v ps)"

datatype json =
    JNull
  | JBool bool
  | JInt int
  | JNum real
  | JStr string
  | JList "json list"
  | JObj "(string \<times> json) list"

record request =
  req_method :: string
  req_path :: string
  query_string :: string
  req_headers :: headers
  req_body :: string

text \<open>
  What \<^verbatim>\<open>session.request\<close> is called with: method, url, headers, data, and the local
  SOCKS port of the connector (\<^term>\<open>None\<close> for a direct connection).
\<close>

record upstream_request =
  up_method :: string
  up_url :: string
  up_request_headers :: headers
  up_data :: "string option"
  up_socks_port :: "int option"

text \<open>
  An upstream response: the status, the headers, aiohttp's parsed content type (empty
  when the response names none), the chunks of the body in arrival order, and whether
  reading the body raises.
\<close>

record upstream_response =
  up_status :: int
  up_headers :: headers
  up_content_type :: string
  up_chunks :: "string list"
  up_read_raises :: bool

datatype upstream_result = TransportError | Responded upstream_response

text \<open>
  What the client gets: \<^verbatim>\<open>web.json_response\<close>, a buffered \<^verbatim>\<open>web.Response\<close>, a
  \<^verbatim>\<open>web.StreamResponse\<close> with its content type and the chunks written to it, or, when
  an exception leaves the handler, the 500 that aiohttp answers for it.
\<close>

datatype response =
    JsonResponse int json
  | BufferedResponse int headers string
  | StreamedResponse int headers string "string list"
  | Unhandled

fun response_status :: "response \<Rightarrow> int" where
  "response_status (JsonResponse st j) = st"
| "response_status (BufferedResponse st hs b) = st"
| "response_status (StreamedResponse st hs ct cs) = st"
| "response_status Unhandled = 500"

text \<open>The headers and the bytes of the body of a relayed response.\<close>

fun response_headers :: "response \<Rightarrow> headers" where
  "response_headers (BufferedResponse st hs b) = hs"
| "response_headers (StreamedResponse st hs ct cs) = hs"
| "response_headers other = []"

fun response_body :: "response \<Rightarrow> string" where
  "response_body (BufferedResponse st hs b) = b"
| "response_body (StreamedResponse st hs ct cs) = concat cs"
| "response_body other = []"

text \<open>
  The world a request runs in. \<open>balance_threshold\<close>: \<^verbatim>\<open>settings.balance_threshold\<close>.
  \<open>upstream\<close>: what the upstream answers to the request of the n-th attempt. \<open>now\<close>: the
  text of \<^verbatim>\<open>datetime('now')\<close> at the n-th attempt. \<open>response_truthy\<close>: the truth value
  Python gives a \<^verbatim>\<open>web.Response\<close> object. It depends on the aiohttp release, which the
  repository does not pin: a response is a mutable mapping, empty when it is made, and a
  release whose response class defines no truth value of its own makes it falsy like any
  empty mapping.
\<close>

record env =
  balance_threshold :: real
  upstream :: "nat \<Rightarrow> upstream_request \<Rightarrow> upstream_result"
  now :: "nat \<Rightarrow> string"
  response_truthy :: bool

text \<open>
  The state the handler and the reconciliation loop share: the store, the daemon session
  of services/vless.py (\<^verbatim>\<open>is_xray_running()\<close>, \<^verbatim>\<open>_xray_tunnel_count\<close>), and two traces:
  \<open>sent\<close>, the upstream requests issued so far in order, and \<open>asked\<close>, the sets of
  excluded ids that \<^verbatim>\<open>get_active_key\<close> was called with by the proxy path, in order.
  The code keeps no such traces; they are carried to state what reaches the upstream
  and what the pool is asked. A request, and a cycle of the loop, is followed from its
  first step to its last with no other task writing the store in between.
\<close>

record state =
  store :: db
  xray_running :: bool
  xray_tunnel_count :: nat
  sent :: "upstream_request list"
  asked :: "int set list"

definition UPSTREAM :: string where
  "UPSTREAM = ''https://gen.pollinations.ai''"

definition HOP_BY_HOP :: "string set" where
  "HOP_BY_HOP = {''connection'', ''keep-alive'', ''proxy-authenticate'', ''proxy-authorization'',
     ''te'', ''trailers'', ''transfer-encoding'', ''upgrade'', ''host''}"

subsection \<open>\<^verbatim>\<open>_get_connector\<close>, \<^verbatim>\<open>_authenticate\<close>, \<^verbatim>\<open>_forward_headers\<close>, \<^verbatim>\<open>_proxy_response\<close>\<close>

definition get_connector :: "bool \<Rightarrow> int option \<Rightarrow> int option" where
  "get_connector is_xray_running vless_config_index =
     (case vless_config_index of
        None \<Rightarrow> None
      | Some idx \<Rightarrow> if \<not> is_xray_running then None else Some (10801 + idx))"

definition startswith :: "string \<Rightarrow> string \<Rightarrow> bool" where
  "startswith s p = (take (length p) s = p)"

definition missing_header_response :: response where
  "missing_header_response =
     JsonResponse 401
       (JObj [(''error'', JStr ''Missing or invalid Authorization header. Use: Bearer <token>'')])"

definition invalid_token_response :: response where
  "invalid_token_response = JsonResponse 401 (JObj [(''error'', JStr ''Invalid or revoked token'')])"

text \<open>
  The pair \<^verbatim>\<open>(token, error)\<close> of the source, of which exactly one is not None, is a sum:
  \<^term>\<open>Inl\<close> the error response, \<^term>\<open>Inr\<close> the token row. The handler's test
  \<^verbatim>\<open>if error:\<close> is read as "an error response was returned".
\<close>

definition authenticate :: "db \<Rightarrow> request \<Rightarrow> response + service_token" where
  "authenticate d req =
     (let auth = (case header_get (req_headers req) ''Authorization'' of None \<Rightarrow> [] | Some v \<Rightarrow> v)
      in if \<not> startswith auth ''Bearer '' then Inl missing_header_response
         else (case get_token_by_value d (drop 7 auth) of
                 None \<Rightarrow> Inl invalid_token_response
               | Some t \<Rightarrow> Inr t))"

definition forward_headers :: "headers \<Rightarrow> string \<Rightarrow> headers" where
  "forward_headers request_headers api_key =
     dict_set ''Authorization'' (''Bearer '' @ api_key)
       (fold (\<lambda>kv hs. if lower (fst kv) \<notin> HOP_BY_HOP \<and> lower (fst kv) \<noteq> ''authorization''
                       then dict_set (fst kv) (snd kv) hs else hs)
          request_headers [])"

fun contains :: "string \<Rightarrow> string \<Rightarrow> bool" where
  "contains [] p = (p = [])"
| "contains (c # s) p = (startswith (c # s) p \<or> contains s p)"

text \<open>
  \<^verbatim>\<open>_proxy_response\<close>: \<^term>\<open>None\<close> when reading the upstream body raises, which the
  handler's \<^verbatim>\<open>except\<close> clause catches.
\<close>

definition proxy_response :: "upstream_response \<Rightarrow> response option" where
  "proxy_response upstream_resp =
     (let resp_headers =
            fold (\<lambda>kv hs. if lower (fst kv) \<notin> HOP_BY_HOP then dict_set (fst kv) (snd kv) hs else hs)
              (up_headers upstream_resp) [];
          content_type = (if up_content_type upstream_resp = [] then ''application/octet-stream''
                          else up_content_type upstream_resp);
          is_stream = (contains content_type ''text/event-stream''
                       \<or> header_get (up_headers upstream_resp) ''Transfer-Encoding'' = Some ''chunked'')
      in if up_read_raises upstream_resp then None
         else if is_stream
         then Some (StreamedResponse (up_status upstream_resp) resp_headers content_type
                      (up_chunks upstream_resp))
         else Some (BufferedResponse (up_status upstream_resp) resp_headers
                      (concat (up_chunks upstream_resp))))"

subsection \<open>\<^verbatim>\<open>proxy_handler\<close>\<close>

text \<open>Decimal text of an integer, as an f-string prints it.\<close>

fun str_nat :: "nat \<Rightarrow> string" where
  "str_nat n = (if n < 10 then [''0123456789'' ! n] else str_nat (n div 10) @ [''0123456789'' ! (n mod 10)])"

definition str_int :: "int \<Rightarrow> string" where
  "str_int i = (if i < 0 then CHR ''-'' # str_nat (nat (- i)) else str_nat (nat i))"

definition status_str :: "int \<Rightarrow> string" where
  "status_str st = (if st < 400 then ''ok'' else ''error_'' @ str_int st)"

definition no_keys_response :: response where
  "no_keys_response = JsonResponse 503 (JObj [(''error'', JStr ''No active API keys available'')])"

definition upstream_failed_response :: response where
  "upstream_failed_response = JsonResponse 502 (JObj [(''error'', JStr ''Upstream connection failed'')])"

definition log_outcome :: "request \<Rightarrow> service_token \<Rightarrow> string \<Rightarrow> int option \<Rightarrow> state \<Rightarrow> state" where
  "log_outcome req tok outcome kid s =
     s\<lparr>store := add_request_log (req_path req) (req_method req) outcome kid (Some (token_id tok)) (store s)\<rparr>"

text \<open>The upstream request of one attempt with the selected row.\<close>

definition attempt_request ::
  "request \<Rightarrow> bool \<Rightarrow> api_key \<Rightarrow> int option \<Rightarrow> upstream_request" where
  "attempt_request req is_xray_running key_data vless_idx =
     \<lparr>up_method = req_method req,
      up_url = UPSTREAM @ req_path req
               @ (if query_string req \<noteq> [] then ''?'' @ query_string req else []),
      up_request_headers = forward_headers (req_headers req) (key key_data),
      up_data = (if req_method req \<in> {''POST'', ''PUT'', ''PATCH''} then Some (req_body req) else None),
      up_socks_port = get_connector is_xray_running vless_idx\<rparr>"

text \<open>
  The two traces: a call of \<^verbatim>\<open>get_active_key\<close> with the set \<open>tried_keys\<close>, and such a
  call followed by the upstream request \<open>q\<close>.
\<close>

definition ask :: "int set \<Rightarrow> state \<Rightarrow> state" where
  "ask tried_keys s = s\<lparr>asked := asked s @ [tried_keys]\<rparr>"

definition attempted :: "int set \<Rightarrow> upstream_request \<Rightarrow> state \<Rightarrow> state" where
  "attempted tried_keys q s = s\<lparr>asked := asked s @ [tried_keys], sent := sent s @ [q]\<rparr>"

text \<open>
  The code after the loop, reached when the attempts are used up or by \<^verbatim>\<open>break\<close>.
\<close>

definition no_keys :: "request \<Rightarrow> service_token \<Rightarrow> state \<Rightarrow> response \<times> state" where
  "no_keys req tok s = (no_keys_response, log_outcome req tok ''no_keys'' None s)"

text \<open>
  The loop \<^verbatim>\<open>for _attempt in range(3)\<close>, over the attempts still to make, with the
  set \<^verbatim>\<open>tried_keys\<close>. Everything from the upstream call to \<^verbatim>\<open>_proxy_response\<close> stands
  in the \<^verbatim>\<open>try\<close>: a transport exception, or one raised while the body is relayed,
  ends in the \<^verbatim>\<open>except\<close> clause.
\<close>

fun try_keys ::
  "env \<Rightarrow> request \<Rightarrow> service_token \<Rightarrow> nat list \<Rightarrow> int set \<Rightarrow> state \<Rightarrow> response \<times> state" where
  "try_keys e req tok [] tried_keys s = no_keys req tok s"
| "try_keys e req tok (attempt # later) tried_keys s =
     (case get_active_key (store s) (balance_threshold e) tried_keys of
        None \<Rightarrow> no_keys req tok (ask tried_keys s)
      | Some (key_data, vless_idx) \<Rightarrow>
          (let kid = key_id key_data;
               q = attempt_request req (xray_running s) key_data vless_idx;
               s1 = attempted tried_keys q s
           in case upstream e attempt q of
                TransportError \<Rightarrow>
                  (upstream_failed_response, log_outcome req tok ''exception'' (Some kid) s1)
              | Responded upstream_resp \<Rightarrow>
                  if up_status upstream_resp = 402
                  then try_keys e req tok later (insert kid tried_keys)
                         (log_outcome req tok ''key_exhausted'' (Some kid)
                            (s1\<lparr>store := update_key_balance (now e attempt) kid (Some 0) None
                                            (deactivate_key kid (store s1))\<rparr>))
                  else
                    (let s2 = log_outcome req tok (status_str (up_status upstream_resp)) (Some kid) s1
                     in case proxy_response upstream_resp of
                          None \<Rightarrow>
                            (upstream_failed_response, log_outcome req tok ''exception'' (Some kid) s2)
                        | Some resp \<Rightarrow> (resp, s2))))"

text \<open>\<^verbatim>\<open>GET /health\<close> and \<^verbatim>\<open>GET /status\<close>\<close>

definition health :: "state \<Rightarrow> response" where
  "health s =
     JsonResponse 200
       (JObj [(''status'', JStr ''ok''),
              (''active_keys'', JInt (int (length (filter is_active (api_keys (store s)))))),
              (''xray'', JBool (xray_running s))])"

definition status :: "state \<Rightarrow> response" where
  "status s =
     JsonResponse 200
       (JObj [(''keys'',
          JList (map (\<lambda>r. JObj [(''masked'', JStr (take 6 (key (row_key r)) @ ''...'')),
                                (''balance'', (case pollen_balance (row_key r) of
                                                 None \<Rightarrow> JNull | Some b \<Rightarrow> JNum b)),
                                (''active'', JBool (is_active (row_key r))),
                                (''vless'', (case row_vless_remark r of
                                               None \<Rightarrow> JNull
                                             | Some t \<Rightarrow> if t = [] then JNull else JStr t))])
                 (get_all_keys (store s))))])"

text \<open>
  The handler past \<^verbatim>\<open>if error: return error\<close> with \<^verbatim>\<open>token\<close> None, which is where a
  failed authentication goes when the error response is falsy. The first pass of the
  loop runs as for any request, up to the first subscript of \<^verbatim>\<open>token\<close>, which raises
  TypeError:
  after the loop when no credential is selectable; in the \<^verbatim>\<open>except\<close> clause when the
  upstream call raises; in the arguments of \<^verbatim>\<open>add_request_log\<close> otherwise, by then
  with the credential deactivated and its balance zeroed when the status is 402, and from
  there in the \<^verbatim>\<open>except\<close> clause again. So the exception leaves the handler in every
  case, no log entry is written and no second pass is made.
\<close>

definition try_keys_without_token :: "env \<Rightarrow> request \<Rightarrow> state \<Rightarrow> response \<times> state" where
  "try_keys_without_token e req s =
     (case get_active_key (store s) (balance_threshold e) {} of
        None \<Rightarrow> (Unhandled, ask {} s)
      | Some (key_data, vless_idx) \<Rightarrow>
          (let kid = key_id key_data;
               q = attempt_request req (xray_running s) key_data vless_idx;
               s1 = attempted {} q s
           in case upstream e 0 q of
                TransportError \<Rightarrow> (Unhandled, s1)
              | Responded upstream_resp \<Rightarrow>
                  if up_status upstream_resp = 402
                  then (Unhandled,
                        s1\<lparr>store := update_key_balance (now e 0) kid (Some 0) None
                                       (deactivate_key kid (store s1))\<rparr>)
                  else (Unhandled, s1)))"

text \<open>
  The handler. \<^verbatim>\<open>if error:\<close> tests the truth value of the 401 response that
  \<^verbatim>\<open>_authenticate\<close> made, not whether there is one.
\<close>

definition proxy_handler :: "env \<Rightarrow> request \<Rightarrow> state \<Rightarrow> response \<times> state" where
  "proxy_handler e req s =
     (if req_path req = ''/health'' then (health s, s)
      else if req_path req = ''/status'' then (status s, s)
      else (case authenticate (store s) req of
              Inl error \<Rightarrow>
                if response_truthy e then (error, s) else try_keys_without_token e req s
            | Inr tok \<Rightarrow> try_keys e req tok [0..<3] {} s))"

text \<open>
  The ids of the rows a request with the given tried set can still be given, and what a
  402 leaves of a row: inactive, balance 0, no reset time, a fresh check time, the rest
  as it was. \<open>exhausted_only ids keys keys'\<close>: the table \<open>keys'\<close> is \<open>keys\<close> with the rows
  of the ids exhausted and every other row untouched.
\<close>

definition acceptable_ids :: "real \<Rightarrow> int set \<Rightarrow> db \<Rightarrow> int set" where
  "acceptable_ids thr tried d = key_id ` set (filter (acceptable thr tried) (api_keys d))"

definition exhausted :: "api_key \<Rightarrow> api_key \<Rightarrow> bool" where
  "exhausted x x' =
     (balance_checked_at x' \<noteq> None \<and>
      x'\<lparr>balance_checked_at := None\<rparr> =
         x\<lparr>is_active := False, pollen_balance := Some 0, next_reset_at := None,
           balance_checked_at := None\<rparr>)"

definition exhausted_only :: "int set \<Rightarrow> api_key list \<Rightarrow> api_key list \<Rightarrow> bool" where
  "exhausted_only ids keys keys' =
     list_all2 (\<lambda>x x'. if key_id x \<in> ids then exhausted x x' else x' = x) keys keys'"

definition outcome_entry :: "request \<Rightarrow> service_token \<Rightarrow> string \<Rightarrow> int option \<Rightarrow> log_entry" where
  "outcome_entry req tok outcome kid =
     \<lparr>log_path = req_path req, log_method = req_method req, log_status = outcome,
      log_key_id = kid, log_token_id = Some (token_id tok)\<rparr>"

text \<open>
  The row a 402 at time \<open>t\<close> on the credential \<open>kid\<close> leaves, and the parts of the state
  that the proxy path never writes.
\<close>

definition exhaust_row :: "string \<Rightarrow> int \<Rightarrow> api_key \<Rightarrow> api_key" where
  "exhaust_row t kid x =
     (if key_id x = kid
      then x\<lparr>is_active := False, pollen_balance := Some 0, next_reset_at := None,
             balance_checked_at := Some t\<rparr>
      else x)"

definition frame_same :: "state \<Rightarrow> state \<Rightarrow> bool" where
  "frame_same s s' =
     (vless_configs (store s') = vless_configs (store s)
      \<and> service_tokens (store s') = service_tokens (store s)
      \<and> xray_running s' = xray_running s
      \<and> xray_tunnel_count s' = xray_tunnel_count s)"

section \<open>Tunnel descriptors and the daemon configuration (services/vless.py)\<close>

subsection \<open>The string functions the parser calls\<close>

text \<open>
  A URL is ASCII text in this model. \<^verbatim>\<open>str.strip\<close> and \<^verbatim>\<open>int\<close> skip Python's
  whitespace, of which the ASCII characters are tab, line feed, vertical tab, form feed,
  carriage return, the separators 0x1C to 0x1F and the space.
\<close>

definition is_space :: "char \<Rightarrow> bool" where
  "is_space c =
     (c \<in> {CHR 0x09, CHR 0x0A, CHR 0x0B, CHR 0x0C, CHR 0x0D,
            CHR 0x1C, CHR 0x1D, CHR 0x1E, CHR 0x1F, CHR 0x20})"

definition strip :: "string \<Rightarrow> string" where
  "strip s = rev (dropWhile is_space (rev (dropWhile is_space s)))"

text \<open>
  \<^verbatim>\<open>s.split(c, 1)\<close> and \<^verbatim>\<open>s.rsplit(c, 1)\<close> for a string that holds \<open>c\<close>: the parts
  before and after the first, respectively the last, \<open>c\<close>. \<^verbatim>\<open>s.split(c)\<close>: all the parts.
\<close>

definition split1 :: "char \<Rightarrow> string \<Rightarrow> string \<times> string" where
  "split1 c s = (takeWhile (\<lambda>x. x \<noteq> c) s, drop 1 (dropWhile (\<lambda>x. x \<noteq> c) s))"

definition rsplit1 :: "char \<Rightarrow> string \<Rightarrow> string \<times> string" where
  "rsplit1 c s =
     (rev (drop 1 (dropWhile (\<lambda>x. x \<noteq> c) (rev s))), rev (takeWhile (\<lambda>x. x \<noteq> c) (rev s)))"

fun split_on :: "char \<Rightarrow> string \<Rightarrow> string list" where
  "split_on c [] = [[]]"
| "split_on c (x # xs) =
     (if x = c then [] # split_on c xs
      else (case split_on c xs of [] \<Rightarrow> [[x]] | y # ys \<Rightarrow> (x # y) # ys))"

text \<open>
  \<^verbatim>\<open>int(s)\<close> in base 10: whitespace around, an optional sign, then digits with single
  underscores allowed between them. \<^term>\<open>None\<close> is the ValueError. (The bound that
  recent Python versions put on the number of digits is not modelled.)
\<close>

definition digit_val :: "char \<Rightarrow> int option" where
  "digit_val c = map_of (zip ''0123456789'' [0, 1, 2, 3, 4, 5, 6, 7, 8, 9]) c"

fun digits_ok :: "string \<Rightarrow> bool" where
  "digits_ok [] = False"
| "digits_ok [c] = (digit_val c \<noteq> None)"
| "digits_ok (c # d # cs) =
     (digit_val c \<noteq> None \<and> (if d = CHR ''_'' then digits_ok cs else digits_ok (d # cs)))"

definition digits_value :: "string \<Rightarrow> int" where
  "digits_value s =
     foldl (\<lambda>a c. case digit_val c of None \<Rightarrow> a | Some v \<Rightarrow> 10 * a + v) 0 s"

definition py_int :: "string \<Rightarrow> int option" where
  "py_int s =
     (let t = strip s;
          negative = (take 1 t = ''-'');
          body = (if take 1 t = ''-'' \<or> take 1 t = ''+'' then drop 1 t else t)
      in if digits_ok body
         then Some (if negative then - digits_value body else digits_value body)
         else None)"

text \<open>
  \<^verbatim>\<open>urllib.parse.unquote\<close> of an ASCII string. A string without \<^verbatim>\<open>%\<close> is returned as it
  is. Otherwise \<^verbatim>\<open>unquote_to_bytes\<close> makes every \<^verbatim>\<open>%XX\<close> with two hexadecimal digits the
  byte of that value and leaves anything else, and the bytes are decoded as UTF-8 with
  \<^verbatim>\<open>errors='replace'\<close>. A string that is not ASCII is held as its UTF-8 bytes here, so
  decoding keeps a well-formed sequence and puts the bytes of U+FFFD, EF BF BD, for an
  ill-formed one.
\<close>

definition hex_val :: "char \<Rightarrow> nat option" where
  "hex_val c =
     map_of (zip ''0123456789abcdefABCDEF''
               [0, 1, 2, 3, 4, 5, 6, 7, 8, 9, 10, 11, 12, 13, 14, 15, 10, 11, 12, 13, 14, 15]) c"

fun unquote_to_bytes :: "string \<Rightarrow> nat list" where
  "unquote_to_bytes (c # a # b # cs) =
     (case (hex_val a, hex_val b) of
        (Some x, Some y) \<Rightarrow>
          if c = CHR ''%'' then (16 * x + y) # unquote_to_bytes cs
          else of_char c # unquote_to_bytes (a # b # cs)
      | _ \<Rightarrow> of_char c # unquote_to_bytes (a # b # cs))"
| "unquote_to_bytes cs = map of_char cs"

text \<open>
  The UTF-8 decoder of CPython with the \<^verbatim>\<open>replace\<close> handler. A byte that cannot start
  a sequence (80 to C1, F5 to FF) is replaced alone. A lead byte whose second byte is not
  a continuation byte, or is one that would make an overlong form, a surrogate or a code
  point above 10FFFF, is replaced alone, and decoding goes on at the second byte; a bad
  third or fourth byte has the bytes before it replaced by one U+FFFD. A sequence that
  the end of the data cuts short is replaced by one U+FFFD.
\<close>

definition is_continuation_byte :: "nat \<Rightarrow> bool" where
  "is_continuation_byte b = (0x80 \<le> b \<and> b < 0xC0)"

definition REPLACEMENT :: "nat list" where
  "REPLACEMENT = [0xEF, 0xBF, 0xBD]"

fun utf8_replace :: "nat list \<Rightarrow> nat list" where
  "utf8_replace [] = []"
| "utf8_replace (ch # rest) =
     (if ch < 0x80 then ch # utf8_replace rest
      else if ch < 0xC2 then REPLACEMENT @ utf8_replace rest
      else if ch < 0xE0 then
        (case rest of
           [] \<Rightarrow> REPLACEMENT
         | ch2 # r2 \<Rightarrow>
             if is_continuation_byte ch2 then ch # ch2 # utf8_replace r2
             else REPLACEMENT @ utf8_replace rest)
      else if ch < 0xF0 then
        (case rest of
           [] \<Rightarrow> REPLACEMENT
         | ch2 # r2 \<Rightarrow>
             if \<not> is_continuation_byte ch2 \<or> (if ch2 < 0xA0 then ch = 0xE0 else ch = 0xED)
             then REPLACEMENT @ utf8_replace rest
             else (case r2 of
                     [] \<Rightarrow> REPLACEMENT
                   | ch3 # r3 \<Rightarrow>
                       if is_continuation_byte ch3 then ch # ch2 # ch3 # utf8_replace r3
                       else REPLACEMENT @ utf8_replace r2))
      else if ch < 0xF5 then
        (case rest of
           [] \<Rightarrow> REPLACEMENT
         | ch2 # r2 \<Rightarrow>
             if \<not> is_continuation_byte ch2 \<or> (if ch2 < 0x90 then ch = 0xF0 else ch = 0xF4)
             then REPLACEMENT @ utf8_replace rest
             else (case r2 of
                     [] \<Rightarrow> REPLACEMENT
                   | ch3 # r3 \<Rightarrow>
                       if \<not> is_continuation_byte ch3 then REPLACEMENT @ utf8_replace r2
                       else (case r3 of
                               [] \<Rightarrow> REPLACEMENT
                             | ch4 # r4 \<Rightarrow>
                                 if is_continuation_byte ch4
                                 then ch # ch2 # ch3 # ch4 # utf8_replace r4
                                 else REPLACEMENT @ utf8_replace r3)))
      else REPLACEMENT @ utf8_replace rest)"

definition unquote :: "string \<Rightarrow> string" where
  "unquote s =
     (if CHR ''%'' \<notin> set s then s
      else map char_of (utf8_replace (unquote_to_bytes s)))"

text \<open>
  \<^verbatim>\<open>urllib.parse.parse_qs\<close> with its defaults, as the list of its (name, value) pairs
  in order: the fields are separated by \<^verbatim>\<open>&\<close>; a field that is empty, has no \<^verbatim>\<open>=\<close> or
  has an empty value is dropped; \<^verbatim>\<open>+\<close> is a space; name and value are unquoted. The
  parser keeps the first value of each name, which is what \<^term>\<open>map_of\<close> finds.
\<close>

definition plus_to_space :: "string \<Rightarrow> string" where
  "plus_to_space s = map (\<lambda>c. if c = CHR ''+'' then CHR '' '' else c) s"

definition parse_qs :: "string \<Rightarrow> (string \<times> string) list" where
  "parse_qs qs =
     map (\<lambda>nv. (unquote (plus_to_space (fst (split1 CHR ''='' nv))),
                 unquote (plus_to_space (snd (split1 CHR ''='' nv)))))
       (filter (\<lambda>nv. CHR ''='' \<in> set nv \<and> snd (split1 CHR ''='' nv) \<noteq> [])
          (split_on CHR ''&'' qs))"

subsection \<open>\<^verbatim>\<open>parse_vless_url\<close>\<close>

text \<open>The dict the parser returns; \<^verbatim>\<open>type\<close> and \<^verbatim>\<open>remark\<close> are \<open>cfg_type\<close> and \<open>cfg_remark\<close>.\<close>

record vless_cfg =
  uuid :: string
  host :: string
  port :: int
  cfg_remark :: string
  cfg_type :: string
  security :: string
  sni :: string
  fp :: string
  pbk :: string
  sid :: string
  path :: string
  host_header :: string
  serviceName :: string
  flow :: string
  alpn :: string
  encryption :: string

datatype py_error = ValueError

definition params_get :: "(string \<times> string) list \<Rightarrow> string \<Rightarrow> string \<Rightarrow> string" where
  "params_get params k dflt = (case map_of params k of None \<Rightarrow> dflt | Some v \<Rightarrow> v)"

text \<open>
  The result is \<^term>\<open>Inr None\<close> where the source returns None, \<^term>\<open>Inr (Some cfg)\<close> where
  it returns the dict, and \<^term>\<open>Inl ValueError\<close> where \<^verbatim>\<open>int(port_str)\<close> raises: the
  function has no \<^verbatim>\<open>try\<close>, so the exception leaves it.
\<close>

definition parse_vless_url :: "string \<Rightarrow> py_error + vless_cfg option" where
  "parse_vless_url url0 =
     (let url1 = strip url0
      in if \<not> startswith url1 ''vless://'' then Inr None
         else
           (let has_remark = (CHR ''#'' \<in> set url1);
                url2 = (if has_remark then fst (rsplit1 CHR ''#'' url1) else url1);
                remark_text = (if has_remark then unquote (snd (rsplit1 CHR ''#'' url1)) else []);
                without_scheme = drop (length ''vless://'') url2
            in if CHR ''@'' \<notin> set without_scheme then Inr None
               else
                 (let uuid_part = fst (split1 CHR ''@'' without_scheme);
                      rest = snd (split1 CHR ''@'' without_scheme);
                      host_port = (if CHR ''?'' \<in> set rest then fst (split1 CHR ''?'' rest) else rest);
                      query = (if CHR ''?'' \<in> set rest then snd (split1 CHR ''?'' rest) else []);
                      host_and_port =
                        (if CHR '':'' \<in> set host_port
                         then map_option (Pair (fst (rsplit1 CHR '':'' host_port)))
                                (py_int (snd (rsplit1 CHR '':'' host_port)))
                         else Some (host_port, 443))
                  in case host_and_port of
                       None \<Rightarrow> Inl ValueError
                     | Some (h, p) \<Rightarrow>
                         (let params = (if query \<noteq> [] then parse_qs query else [])
                          in Inr (Some
                               \<lparr>uuid = uuid_part, host = h, port = p, cfg_remark = remark_text,
                                cfg_type = params_get params ''type'' ''tcp'',
                                security = params_get params ''security'' ''none'',
                                sni = params_get params ''sni'' [],
                                fp = params_get params ''fp'' [],
                                pbk = params_get params ''pbk'' [],
                                sid = params_get params ''sid'' [],
                                path = params_get params ''path'' [],
                                host_header = params_get params ''host'' [],
                                serviceName = params_get params ''serviceName'' [],
                                flow = params_get params ''flow'' [],
                                alpn = params_get params ''alpn'' [],
                                encryption = params_get params ''encryption'' ''none''\<rparr>)))))"

subsection \<open>\<^verbatim>\<open>_build_stream_settings\<close> and \<^verbatim>\<open>generate_xray_config\<close>\<close>

text \<open>
  A Python dict is a \<^term>\<open>JObj\<close> with its items in insertion order. \<open>item_if_set k v\<close> is
  the item the source adds under \<^verbatim>\<open>if cfg[...]:\<close>, that is, for a value that is not
  empty.
\<close>

definition item_if_set :: "string \<Rightarrow> string \<Rightarrow> (string \<times> json) list" where
  "item_if_set k v = (if v \<noteq> [] then [(k, JStr v)] else [])"

definition build_stream_settings :: "vless_cfg \<Rightarrow> json" where
  "build_stream_settings cfg =
     (let network = cfg_type cfg
      in JObj
          ([(''network'', JStr network)]
           @ (if network = ''ws''
              then [(''wsSettings'',
                     JObj (item_if_set ''path'' (path cfg)
                           @ (if host_header cfg \<noteq> []
                              then [(''headers'', JObj [(''Host'', JStr (host_header cfg))])]
                              else [])))]
              else if network = ''grpc''
              then [(''grpcSettings'', JObj (item_if_set ''serviceName'' (serviceName cfg)))]
              else if network = ''tcp''
              then [(''tcpSettings'', JObj [])]
              else [])
           @ (if security cfg = ''tls''
              then [(''security'', JStr ''tls''),
                    (''tlsSettings'',
                     JObj (item_if_set ''serverName'' (sni cfg)
                           @ item_if_set ''fingerprint'' (fp cfg)
                           @ (if alpn cfg \<noteq> []
                              then [(''alpn'', JList (map JStr (split_on CHR '','' (alpn cfg))))]
                              else [])))]
              else if security cfg = ''reality''
              then [(''security'', JStr ''reality''),
                    (''realitySettings'',
                     JObj (item_if_set ''serverName'' (sni cfg)
                           @ item_if_set ''fingerprint'' (fp cfg)
                           @ item_if_set ''publicKey'' (pbk cfg)
                           @ item_if_set ''shortId'' (sid cfg)))]
              else [(''security'', JStr ''none'')])))"

text \<open>The inbound, the outbound and the routing rule of the tunnel at position \<open>i\<close>.\<close>

definition inbound :: "nat \<Rightarrow> json" where
  "inbound i =
     JObj [(''tag'', JStr (''socks-in-'' @ str_nat i)),
           (''port'', JInt (10801 + int i)),
           (''listen'', JStr ''127.0.0.1''),
           (''protocol'', JStr ''socks''),
           (''settings'', JObj [(''udp'', JBool True)])]"

definition outbound :: "nat \<Rightarrow> vless_cfg \<Rightarrow> json" where
  "outbound i cfg =
     JObj [(''tag'', JStr (''vless-'' @ str_nat i)),
           (''protocol'', JStr ''vless''),
           (''settings'',
            JObj [(''vnext'',
                   JList [JObj [(''address'', JStr (host cfg)),
                                (''port'', JInt (port cfg)),
                                (''users'',
                                 JList [JObj ([(''id'', JStr (uuid cfg)),
                                               (''encryption'', JStr (encryption cfg))]
                                              @ item_if_set ''flow'' (flow cfg))])]])]),
           (''streamSettings'', build_stream_settings cfg)]"

definition routing_rule :: "nat \<Rightarrow> json" where
  "routing_rule i =
     JObj [(''type'', JStr ''field''),
           (''inboundTag'', JList [JStr (''socks-in-'' @ str_nat i)]),
           (''outboundTag'', JStr (''vless-'' @ str_nat i))]"

text \<open>
  The first loop parses every URL and keeps the descriptors; an exception of the parser
  ends the function.
\<close>

fun parse_all :: "string list \<Rightarrow> py_error + vless_cfg list" where
  "parse_all [] = Inr []"
| "parse_all (u # us) =
     (case parse_vless_url u of
        Inl err \<Rightarrow> Inl err
      | Inr parsed \<Rightarrow>
          (case parse_all us of
             Inl err \<Rightarrow> Inl err
           | Inr configs \<Rightarrow> Inr ((case parsed of None \<Rightarrow> [] | Some cfg \<Rightarrow> [cfg]) @ configs)))"

definition generate_xray_config :: "string list \<Rightarrow> py_error + json" where
  "generate_xray_config vless_urls =
     (case parse_all vless_urls of
        Inl err \<Rightarrow> Inl err
      | Inr configs \<Rightarrow>
          if configs = [] then Inr (JObj [])
          else Inr (JObj [(''log'', JObj [(''loglevel'', JStr ''warning'')]),
                          (''inbounds'', JList (map inbound [0..<length configs])),
                          (''outbounds'',
                           JList (map (\<lambda>(i, cfg). outbound i cfg) (enumerate 0 configs))),
                          (''routing'',
                           JObj [(''rules'', JList (map routing_rule [0..<length configs]))])]))"

text \<open>\<^verbatim>\<open>SELECT url FROM vless_configs WHERE is_active = 1 ORDER BY config_index\<close>\<close>

definition get_active_vless_urls :: "db \<Rightarrow> string list" where
  "get_active_vless_urls d = map url (sort_key config_index (filter vless_is_active (vless_configs d)))"

text \<open>Reading a generated configuration: the member of a dict, and the keys of a dict.\<close>

fun json_get :: "string \<Rightarrow> json \<Rightarrow> json option" where
  "json_get k (JObj items) = map_of items k"
| "json_get k j = None"

fun json_keys :: "json \<Rightarrow> string list" where
  "json_keys (JObj items) = map fst items"
| "json_keys j = []"

subsection \<open>The daemon session: \<^verbatim>\<open>restart_xray\<close>\<close>

text \<open>
  \<^verbatim>\<open>restart_xray\<close> saves the generated configuration and starts the daemon. An empty
  configuration is not saved and nothing is started. \<^verbatim>\<open>start_xray\<close> first stops the
  running process; \<open>launch_ok\<close> says whether the new process is still alive after the
  wait. An exception of the generator leaves the function before anything is changed.
\<close>

definition restart_xray :: "bool \<Rightarrow> string list \<Rightarrow> state \<Rightarrow> (py_error + bool) \<times> state" where
  "restart_xray launch_ok vless_urls s =
     (case generate_xray_config vless_urls of
        Inl err \<Rightarrow> (Inl err, s)
      | Inr config \<Rightarrow>
          if config = JObj [] then (Inr False, s)
          else if launch_ok
          then (Inr True, s\<lparr>xray_running := True, xray_tunnel_count := length vless_urls\<rparr>)
          else (Inr False, s\<lparr>xray_running := False\<rparr>))"

section \<open>The reconciliation loop (services/pollinations.py, bot.py)\<close>

text \<open>
  What the upstream answers to a probe: an exception, or a status with the members of
  the JSON body that the code reads. A member is \<^term>\<open>None\<close> when the body does not
  have it and \<^term>\<open>Some None\<close> when it is null. The bodies are taken to have the
  documented shape: an object whose \<^verbatim>\<open>balance\<close> is a number and whose \<^verbatim>\<open>tier\<close> and
  \<^verbatim>\<open>nextResetAt\<close> are strings, where they are not null.
\<close>

datatype 'a reply = Raised | Replied int 'a

record probe_env =
  threshold :: real
  balance_api :: "string \<Rightarrow> int option \<Rightarrow> (real option option) reply"
  profile_api :: "string \<Rightarrow> int option \<Rightarrow> (string option option \<times> string option option) reply"
  checked_at :: "int \<Rightarrow> string"
  xray_starts :: bool

text \<open>
  The dict \<^verbatim>\<open>result\<close> of \<^verbatim>\<open>check_key_balance\<close>, each field as \<^verbatim>\<open>result.get\<close> reads it:
  \<^term>\<open>None\<close> for a key that is missing or holds None.
\<close>

record check_result =
  res_balance :: "real option"
  res_tier :: "string option"
  res_next_reset_at :: "string option"
  res_error :: bool

definition BALANCE_URL :: string where
  "BALANCE_URL = ''https://gen.pollinations.ai/account/balance''"

definition PROFILE_URL :: string where
  "PROFILE_URL = ''https://gen.pollinations.ai/account/profile''"

definition probe_request :: "string \<Rightarrow> string \<Rightarrow> int option \<Rightarrow> upstream_request" where
  "probe_request u api_key socks_port =
     \<lparr>up_method = ''GET'', up_url = u,
      up_request_headers = [(''Authorization'', ''Bearer '' @ api_key)],
      up_data = None, up_socks_port = socks_port\<rparr>"

text \<open>
  The result and the requests issued. Both calls stand in one \<^verbatim>\<open>try\<close>: when the balance
  call raises, the profile call is not made.
\<close>

definition check_key_balance ::
  "probe_env \<Rightarrow> string \<Rightarrow> int option \<Rightarrow> check_result \<times> upstream_request list" where
  "check_key_balance e api_key socks_port =
     (case balance_api e api_key socks_port of
        Raised \<Rightarrow>
          (\<lparr>res_balance = None, res_tier = None, res_next_reset_at = None, res_error = True\<rparr>,
           [probe_request BALANCE_URL api_key socks_port])
      | Replied st body \<Rightarrow>
          (let balance = (if st = 200 then (case body of None \<Rightarrow> Some 0 | Some v \<Rightarrow> v) else None);
               probes = [probe_request BALANCE_URL api_key socks_port,
                         probe_request PROFILE_URL api_key socks_port]
           in case profile_api e api_key socks_port of
                Raised \<Rightarrow>
                  (\<lparr>res_balance = balance, res_tier = None, res_next_reset_at = None,
                    res_error = True\<rparr>, probes)
              | Replied st2 profile \<Rightarrow>
                  if st2 = 200
                  then (\<lparr>res_balance = balance,
                         res_tier = (case fst profile of None \<Rightarrow> Some [] | Some v \<Rightarrow> v),
                         res_next_reset_at = (case snd profile of None \<Rightarrow> Some [] | Some v \<Rightarrow> v),
                         res_error = (st \<noteq> 200)\<rparr>, probes)
                  else (\<lparr>res_balance = balance, res_tier = None, res_next_reset_at = None,
                         res_error = (st \<noteq> 200)\<rparr>, probes)))"

text \<open>
  The body of \<^verbatim>\<open>for k in keys\<close>, for one row \<open>k\<close> of the list read at the start of the
  cycle.
\<close>

definition socks_port_of :: "bool \<Rightarrow> int option \<Rightarrow> int option" where
  "socks_port_of is_xray_running vless_idx =
     (case vless_idx of
        None \<Rightarrow> None
      | Some idx \<Rightarrow> if is_xray_running then Some (10801 + idx) else None)"

definition check_one :: "probe_env \<Rightarrow> key_row \<Rightarrow> state \<Rightarrow> state" where
  "check_one e k s =
     (let socks_port = socks_port_of (xray_running s) (row_vless_config_index k);
          result = fst (check_key_balance e (key (row_key k)) socks_port);
          probes = snd (check_key_balance e (key (row_key k)) socks_port);
          balance = res_balance result;
          next_reset = res_next_reset_at result;
          kid = key_id (row_key k);
          d1 = update_key_balance (checked_at e kid) kid balance next_reset (store s);
          d2 = (case balance of
                  None \<Rightarrow> d1
                | Some b \<Rightarrow> if b < threshold e \<and> is_active (row_key k) then deactivate_key kid d1 else d1)
      in s\<lparr>store := d2, sent := sent s @ probes\<rparr>)"

text \<open>
  One pass of the \<^verbatim>\<open>while True\<close> of \<^verbatim>\<open>balance_check_loop\<close>, after the sleep. The loop
  catches every exception of the pass, so an exception of \<^verbatim>\<open>restart_xray\<close> leaves the
  state the sweep reached.
\<close>

definition balance_check_cycle :: "probe_env \<Rightarrow> state \<Rightarrow> state" where
  "balance_check_cycle e s =
     (let keys = get_all_keys (store s)
      in if keys = [] then s
         else
           (let s1 = fold (check_one e) keys s;
                urls = get_active_vless_urls (store s1)
            in if urls \<noteq> [] \<and> (\<not> xray_running s1 \<or> length urls \<noteq> xray_tunnel_count s1)
               then snd (restart_xray (xray_starts e) urls s1)
               else s1))"

text \<open>
  What a cycle makes of a credential row \<open>k\<close>, in the words of the specification, with
  no reference to \<^verbatim>\<open>check_key_balance\<close>. The probe is two calls, balance, then profile;
  the profile call is skipped when the balance call raises. The probed balance is the
  one a 200 of the balance call reports, and unknown otherwise; the probed reset time is
  the one a 200 of the profile call reports, and unknown otherwise. The port of the
  tunnel is resolved only when the daemon runs. The three columns are overwritten, and
  the row is deactivated when the probed balance is known and below the threshold.
\<close>

definition probe_port :: "bool \<Rightarrow> db \<Rightarrow> api_key \<Rightarrow> int option" where
  "probe_port is_xray_running d k =
     (case vless_config_index_of d k of
        None \<Rightarrow> None
      | Some idx \<Rightarrow> if is_xray_running then Some (10801 + idx) else None)"

definition probed_balance :: "probe_env \<Rightarrow> string \<Rightarrow> int option \<Rightarrow> real option" where
  "probed_balance e api_key socks_port =
     (case balance_api e api_key socks_port of
        Raised \<Rightarrow> None
      | Replied st body \<Rightarrow>
          if st = 200 then (case body of None \<Rightarrow> Some 0 | Some v \<Rightarrow> v) else None)"

definition probed_reset :: "probe_env \<Rightarrow> string \<Rightarrow> int option \<Rightarrow> string option" where
  "probed_reset e api_key socks_port =
     (case balance_api e api_key socks_port of
        Raised \<Rightarrow> None
      | Replied st body \<Rightarrow>
          (case profile_api e api_key socks_port of
             Raised \<Rightarrow> None
           | Replied st2 profile \<Rightarrow>
               if st2 = 200 then (case snd profile of None \<Rightarrow> Some [] | Some v \<Rightarrow> v) else None))"

definition probes_of :: "probe_env \<Rightarrow> bool \<Rightarrow> db \<Rightarrow> api_key \<Rightarrow> upstream_request list" where
  "probes_of e is_xray_running d k =
     (if balance_api e (key k) (probe_port is_xray_running d k) = Raised
      then [probe_request BALANCE_URL (key k) (probe_port is_xray_running d k)]
      else [probe_request BALANCE_URL (key k) (probe_port is_xray_running d k),
            probe_request PROFILE_URL (key k) (probe_port is_xray_running d k)])"

definition probed_row :: "probe_env \<Rightarrow> bool \<Rightarrow> db \<Rightarrow> api_key \<Rightarrow> api_key" where
  "probed_row e is_xray_running d k =
     k\<lparr>pollen_balance := probed_balance e (key k) (probe_port is_xray_running d k),
       next_reset_at := probed_reset e (key k) (probe_port is_xray_running d k),
       balance_checked_at := Some (checked_at e (key_id k)),
       is_active := (is_active k
                     \<and> (case probed_balance e (key k) (probe_port is_xray_running d k) of
                          None \<Rightarrow> True
                        | Some b \<Rightarrow> \<not> b < threshold e))\<rparr>"

text \<open>
  The effect of one pass of the loop body for the row \<open>r\<close> of the list on a row \<open>x\<close> of
  the table: the two UPDATE statements reach the rows of the id of \<open>r\<close>.
\<close>

definition probe_update :: "probe_env \<Rightarrow> bool \<Rightarrow> key_row \<Rightarrow> api_key \<Rightarrow> api_key" where
  "probe_update e is_xray_running r x =
     (let result = fst (check_key_balance e (key (row_key r))
                          (socks_port_of is_xray_running (row_vless_config_index r)))
      in if key_id x = key_id (row_key r)
         then x\<lparr>pollen_balance := res_balance result,
                next_reset_at := res_next_reset_at result,
                balance_checked_at := Some (checked_at e (key_id (row_key r))),
                is_active := (case res_balance result of
                                None \<Rightarrow> is_active x
                              | Some b \<Rightarrow> if b < threshold e \<and> is_active (row_key r) then False
                                          else is_active x)\<rparr>
         else x)"

section \<open>Concrete inputs\<close>

text \<open>A credential row; a row with a balance has been checked.\<close>

definition mk_key :: "int \<Rightarrow> string \<Rightarrow> int \<Rightarrow> bool \<Rightarrow> real option \<Rightarrow> api_key" where
  "mk_key i k idx act bal =
     \<lparr>key_id = i, key = k, key_index = idx, vless_id = None, is_active = act,
      pollen_balance = bal, next_reset_at = None,
      balance_checked_at = (case bal of None \<Rightarrow> None | Some b \<Rightarrow> Some ''2025-01-01 00:00:00'')\<rparr>"

definition mk_db :: "api_key list \<Rightarrow> db" where
  "mk_db ks = \<lparr>api_keys = ks, vless_configs = [], service_tokens = [], request_log = []\<rparr>"

text \<open>
  The selection example of the specification, and three credentials of which the first
  two hold the same balance.
\<close>

definition selection_db :: db where
  "selection_db = mk_db [mk_key 1 ''sk1'' 0 True (Some (1/2)), mk_key 2 ''sk2'' 1 True (Some (1/20)),
                         mk_key 3 ''sk3'' 2 False (Some 9)]"

definition tied_db :: db where
  "tied_db = mk_db [mk_key 1 ''sk1'' 0 True (Some (1/2)), mk_key 2 ''sk2'' 1 True (Some (1/2)),
                    mk_key 3 ''sk3'' 2 True (Some (1/4))]"

text \<open>
  A pool of three credentials A, B, C (ids 1, 2, 3, balances 3, 2, 1), one service token,
  and a request that presents it.
\<close>

definition three_keys_db :: db where
  "three_keys_db =
     \<lparr>api_keys = [mk_key 1 ''skA'' 0 True (Some 3), mk_key 2 ''skB'' 1 True (Some 2),
                  mk_key 3 ''skC'' 2 True (Some 1)],
      vless_configs = [],
      service_tokens = [\<lparr>token_id = 7, token = ''tok'', token_name = ''svc'', token_is_active = True\<rparr>],
      request_log = []\<rparr>"

definition three_keys_state :: state where
  "three_keys_state = \<lparr>store = three_keys_db, xray_running = False, xray_tunnel_count = 0, sent = [],
      asked = []\<rparr>"

definition models_request :: request where
  "models_request =
     \<lparr>req_method = ''GET'', req_path = ''/v1/models'', query_string = [],
      req_headers = [(''authorization'', ''Bearer tok'')], req_body = []\<rparr>"

definition anonymous_request :: request where
  "anonymous_request = models_request\<lparr>req_headers := [(''Accept'', ''*/*'')]\<rparr>"

definition svc_token :: service_token where
  "svc_token = \<lparr>token_id = 7, token = ''tok'', token_name = ''svc'', token_is_active = True\<rparr>"

definition resp_402 :: upstream_response where
  "resp_402 = \<lparr>up_status = 402, up_headers = [], up_content_type = ''application/json'',
                up_chunks = [''quota exhausted''], up_read_raises = False\<rparr>"

definition resp_200 :: upstream_response where
  "resp_200 =
     \<lparr>up_status = 200,
      up_headers = [(''Content-Type'', ''application/json''), (''Connection'', ''keep-alive''),
                    (''X-Request-Id'', ''r-17'')],
      up_content_type = ''application/json'',
      up_chunks = [''{'', ''models'', '':[]}''], up_read_raises = False\<rparr>"

text \<open>
  Upstream scripts by attempt: 402, 402, 200; 402 throughout; 402 throughout where a
  response object is falsy; 402, then no connection.
\<close>

definition env_402_402_200 :: env where
  "env_402_402_200 =
     \<lparr>balance_threshold = 1/10,
      upstream = (\<lambda>n q. if n < 2 then Responded resp_402 else Responded resp_200),
      now = (\<lambda>n. ''2025-01-01 00:00:00''),
      response_truthy = True\<rparr>"

definition env_all_402 :: env where
  "env_all_402 = env_402_402_200\<lparr>upstream := (\<lambda>n q. Responded resp_402)\<rparr>"

definition env_falsy_402 :: env where
  "env_falsy_402 = env_all_402\<lparr>response_truthy := False\<rparr>"

definition env_402_down :: env where
  "env_402_down =
     env_402_402_200\<lparr>upstream := (\<lambda>n q. if n < 1 then Responded resp_402 else TransportError)\<rparr>"

text \<open>
  Two tunnels left after the one of config index 1 was deleted, and a credential bound to
  the tunnel of config index 2.
\<close>

definition gap_db :: db where
  "gap_db =
     \<lparr>api_keys = [(mk_key 1 ''skA'' 0 True (Some 3))\<lparr>vless_id := Some 3\<rparr>],
      vless_configs =
        [\<lparr>vless_row_id = 1, url = ''vless://a@h0:443'', remark = Some [], vless_is_active = True,
          config_index = 0\<rparr>,
         \<lparr>vless_row_id = 3, url = ''vless://c@h2:443'', remark = Some [], vless_is_active = True,
          config_index = 2\<rparr>],
      service_tokens = [], request_log = []\<rparr>"

text \<open>A descriptor with a transport and a security that the generator does not know.\<close>

definition kcp_cfg :: vless_cfg where
  "kcp_cfg =
     \<lparr>uuid = ''u'', host = ''h'', port = 443, cfg_remark = [], cfg_type = ''kcp'',
      security = ''xtls'', sni = ''ex.com'', fp = [], pbk = [], sid = [], path = ''/p'',
      host_header = [], serviceName = [], flow = [], alpn = [], encryption = ''none''\<rparr>"

definition ws_tls_cfg :: vless_cfg where
  "ws_tls_cfg =
     kcp_cfg\<lparr>cfg_type := ''ws'', security := ''tls'', host_header := ''cdn.ex.com'',
             alpn := ''h2,http/1.1''\<rparr>"

text \<open>
  A probe that finds balance 5 and a reset time for every credential, and the state of
  the selection example, whose credential 3 is inactive.
\<close>

definition probe_5 :: probe_env where
  "probe_5 =
     \<lparr>threshold = 1/10,
      balance_api = (\<lambda>api_key socks_port. Replied 200 (Some (Some 5))),
      profile_api = (\<lambda>api_key socks_port. Replied 200 (Some (Some ''seed''), Some (Some ''2025-02-01''))),
      checked_at = (\<lambda>kid. ''2025-01-01 00:00:10''),
      xray_starts = True\<rparr>"

text \<open>The same probe, except that the balance call for the key of credential 2 raises.\<close>

definition probe_5_down_2 :: probe_env where
  "probe_5_down_2 =
     probe_5\<lparr>balance_api :=
               (\<lambda>api_key socks_port. if api_key = ''sk2'' then Raised else Replied 200 (Some (Some 5)))\<rparr>"

definition selection_state :: state where
  "selection_state = \<lparr>store = selection_db, xray_running = False, xray_tunnel_count = 0, sent = [],
      asked = []\<rparr>"

section \<open>Selection picks the first row of greatest balance\<close>

lemma balance_ge_refl: "balance_ge a a"
  by (cases a) simp_all

lemma balance_ge_total: "balance_ge a b \<or> balance_ge b a"
  by (cases a; cases b) auto

lemma balance_ge_trans: "balance_ge a b \<Longrightarrow> balance_ge b c \<Longrightarrow> balance_ge a c"
  by (cases a; cases b; cases c) auto

lemma insert_desc_not_Nil: "insert_desc x ys \<noteq> []"
  by (cases ys) simp_all

lemma set_insert_desc: "set (insert_desc x ys) = insert x (set ys)"
  by (induction ys) auto

lemma set_order_by_balance_desc: "set (order_by_balance_desc rows) = set rows"
  by (induction rows) (simp_all add: order_by_balance_desc_def set_insert_desc)

lemma order_by_balance_desc_Nil: "order_by_balance_desc rows = [] \<longleftrightarrow> rows = []"
  by (cases rows) (simp_all add: order_by_balance_desc_def insert_desc_not_Nil)

lemma order_by_balance_desc_Cons:
  "order_by_balance_desc (x # rows) = insert_desc x (order_by_balance_desc rows)"
  by (simp add: order_by_balance_desc_def)


lemma find_Some_in_set: "find P xs = Some x \<Longrightarrow> x \<in> set xs"
  by (induction xs) (auto split: if_splits)

lemma sorted_insert_desc:
  "sorted_wrt (\<lambda>x y. balance_ge (pollen_balance x) (pollen_balance y)) ys \<Longrightarrow>
   sorted_wrt (\<lambda>x y. balance_ge (pollen_balance x) (pollen_balance y)) (insert_desc x ys)"
proof (induction ys)
  case Nil
  then show ?case by simp
next
  case (Cons y ys)
  show ?case
  proof (cases "balance_ge (pollen_balance x) (pollen_balance y)")
    case True
    with Cons.prems show ?thesis
      by (auto intro: balance_ge_trans)
  next
    case False
    then have "balance_ge (pollen_balance y) (pollen_balance x)"
      using balance_ge_total by blast
    with False Cons show ?thesis
      by (auto simp: set_insert_desc)
  qed
qed

lemma sorted_order_by_balance_desc:
  "sorted_wrt (\<lambda>x y. balance_ge (pollen_balance x) (pollen_balance y)) (order_by_balance_desc rows)"
  by (induction rows) (simp_all add: order_by_balance_desc_def sorted_insert_desc)

lemma find_insert_desc:
  "sorted_wrt (\<lambda>x y. balance_ge (pollen_balance x) (pollen_balance y)) ys \<Longrightarrow>
   find P (insert_desc x ys) =
     (if P x
      then (case find P ys of
              None \<Rightarrow> Some x
            | Some r \<Rightarrow> if balance_ge (pollen_balance x) (pollen_balance r) then Some x else Some r)
      else find P ys)"
proof (induction ys)
  case Nil
  then show ?case by simp
next
  case (Cons y ys)
  show ?case
  proof (cases "balance_ge (pollen_balance x) (pollen_balance y)")
    case True
    have "balance_ge (pollen_balance x) (pollen_balance r)" if "find P (y # ys) = Some r" for r
    proof -
      from that have "r \<in> set (y # ys)"
        by (rule find_Some_in_set)
      with Cons.prems have "balance_ge (pollen_balance y) (pollen_balance r)"
        by (auto simp: balance_ge_refl)
      with True show ?thesis by (rule balance_ge_trans)
    qed
    with True show ?thesis
      by (auto split: option.splits)
  next
    case False
    with Cons show ?thesis
      by (auto split: option.splits)
  qed
qed

lemma find_None_filter: "find P xs = None \<longleftrightarrow> filter P xs = []"
  by (induction xs) auto

lemma find_order_first_maximal:
  "find P (order_by_balance_desc rows) = Some r \<Longrightarrow>
   \<exists>pre post. filter P rows = pre @ r # post
     \<and> (\<forall>x\<in>set pre. \<not> balance_ge (pollen_balance x) (pollen_balance r))
     \<and> (\<forall>x\<in>set post. balance_ge (pollen_balance r) (pollen_balance x))"
proof (induction rows arbitrary: r)
  case Nil
  then show ?case by (simp add: order_by_balance_desc_def)
next
  case (Cons a rows)
  let ?S = "order_by_balance_desc rows"
  have step: "find P (insert_desc a ?S) =
     (if P a
      then (case find P ?S of
              None \<Rightarrow> Some a
            | Some r \<Rightarrow> if balance_ge (pollen_balance a) (pollen_balance r) then Some a else Some r)
      else find P ?S)"
    by (rule find_insert_desc) (rule sorted_order_by_balance_desc)
  from Cons.prems have res: "find P (insert_desc a ?S) = Some r"
    by (simp add: order_by_balance_desc_Cons)
  show ?case
  proof (cases "P a")
    case False
    with res step have "find P ?S = Some r" by simp
    from Cons.IH[OF this] False show ?thesis by simp
  next
    case True
    show ?thesis
    proof (cases "find P ?S")
      case None
      then have "find P rows = None"
        by (simp add: find_None_iff set_order_by_balance_desc)
      then have "filter P rows = []" by (simp add: find_None_filter)
      moreover from None True res step have "r = a" by simp
      ultimately have "filter P (a # rows) = [] @ r # []
          \<and> (\<forall>x\<in>set []. \<not> balance_ge (pollen_balance x) (pollen_balance r))
          \<and> (\<forall>x\<in>set []. balance_ge (pollen_balance r) (pollen_balance x))"
        using True by simp
      then show ?thesis by blast
    next
      case (Some r')
      from Cons.IH[OF Some] obtain pre post where
        dec: "filter P rows = pre @ r' # post"
        and pre: "\<forall>x\<in>set pre. \<not> balance_ge (pollen_balance x) (pollen_balance r')"
        and post: "\<forall>x\<in>set post. balance_ge (pollen_balance r') (pollen_balance x)"
        by blast
      show ?thesis
      proof (cases "balance_ge (pollen_balance a) (pollen_balance r')")
        case ge: True
        with Some True res step have "r = a" by simp
        have "balance_ge (pollen_balance a) (pollen_balance x)" if "x \<in> set (filter P rows)" for x
        proof -
          have "balance_ge (pollen_balance r') (pollen_balance x)"
            using that dec pre post balance_ge_total[of "pollen_balance x" "pollen_balance r'"]
            by (auto simp: balance_ge_refl)
          with ge show ?thesis by (rule balance_ge_trans)
        qed
        then have "filter P (a # rows) = [] @ r # filter P rows
          \<and> (\<forall>x\<in>set []. \<not> balance_ge (pollen_balance x) (pollen_balance r))
          \<and> (\<forall>x\<in>set (filter P rows). balance_ge (pollen_balance r) (pollen_balance x))"
          using True \<open>r = a\<close> by simp
        then show ?thesis by blast
      next
        case lt: False
        with Some True res step have "r = r'" by simp
        have "filter P (a # rows) = (a # pre) @ r # post
          \<and> (\<forall>x\<in>set (a # pre). \<not> balance_ge (pollen_balance x) (pollen_balance r))
          \<and> (\<forall>x\<in>set post. balance_ge (pollen_balance r) (pollen_balance x))"
          using True \<open>r = r'\<close> dec pre post lt by simp
        then show ?thesis by blast
      qed
    qed
  qed
qed


lemma acceptable_eq: "(\<lambda>k. eligible thr k \<and> key_id k \<notin> excl) = acceptable thr excl"
  by (simp add: acceptable_def fun_eq_iff)

lemma get_active_key_None:
  "get_active_key d thr excl = None \<longleftrightarrow> filter (acceptable thr excl) (api_keys d) = []"
proof -
  have "get_active_key d thr excl = None \<longleftrightarrow>
        find (\<lambda>k. key_id k \<notin> excl) (filter (eligible thr) (api_keys d)) = None"
    by (simp add: get_active_key_def find_None_iff set_order_by_balance_desc)
  then show ?thesis
    by (simp add: find_None_filter acceptable_eq)
qed

lemma get_active_key_Some:
  assumes "get_active_key d thr excl = Some (r, vi)"
  shows "vi = vless_config_index_of d r"
    and "\<exists>pre post. filter (acceptable thr excl) (api_keys d) = pre @ r # post
           \<and> (\<forall>x\<in>set pre. \<not> balance_ge (pollen_balance x) (pollen_balance r))
           \<and> (\<forall>x\<in>set post. balance_ge (pollen_balance r) (pollen_balance x))"
proof -
  from assms have f: "find (\<lambda>k. key_id k \<notin> excl)
      (order_by_balance_desc (filter (eligible thr) (api_keys d))) = Some r"
    and v: "vi = vless_config_index_of d r"
    by (auto simp: get_active_key_def)
  show "vi = vless_config_index_of d r" by (rule v)
  from find_order_first_maximal[OF f]
  show "\<exists>pre post. filter (acceptable thr excl) (api_keys d) = pre @ r # post
           \<and> (\<forall>x\<in>set pre. \<not> balance_ge (pollen_balance x) (pollen_balance r))
           \<and> (\<forall>x\<in>set post. balance_ge (pollen_balance r) (pollen_balance x))"
    by (simp add: acceptable_eq)
qed

lemma first_maximal_least_index:
  assumes dec: "filter P rows = pre @ r # post"
    and pre: "\<forall>x\<in>set pre. \<not> balance_ge (pollen_balance x) (pollen_balance r)"
    and srt: "sorted (map key_index rows)"
    and x: "x \<in> set (filter P rows)" "pollen_balance x = pollen_balance r"
  shows "key_index r \<le> key_index x"
proof -
  have "sorted (map key_index (filter P rows))"
    using srt by (simp add: sorted_map sorted_wrt_filter)
  then have s: "sorted (map key_index pre @ key_index r # map key_index post)"
    by (simp add: dec)
  from x pre have "x \<notin> set pre"
    by (auto simp: balance_ge_refl)
  with x dec have "x = r \<or> x \<in> set post" by auto
  with s show ?thesis
    by (auto simp: sorted_append)
qed

lemma fold_max_ge: "a \<le> fold max xs (a::int)" "\<forall>x\<in>set xs. x \<le> fold max xs a"
proof -
  have "a \<le> fold max xs a \<and> (\<forall>x\<in>set xs. x \<le> fold max xs a)"
  proof (induction xs arbitrary: a)
    case Nil
    show ?case by simp
  next
    case (Cons y ys)
    from Cons.IH[of "max y a"] show ?case by auto
  qed
  then show "a \<le> fold max xs a" "\<forall>x\<in>set xs. x \<le> fold max xs a" by simp_all
qed

lemma next_key_index_greater: "\<forall>x\<in>set (api_keys d). key_index x < next_key_index d"
proof (cases "map key_index (api_keys d)")
  case Nil
  then show ?thesis by simp
next
  case (Cons i rest)
  have "\<forall>v\<in>set (i # rest). v \<le> fold max rest i"
    using fold_max_ge[where a=i and xs=rest] by simp
  then have "\<forall>v\<in>set (map key_index (api_keys d)). v < next_key_index d"
    by (simp add: next_key_index_def Cons)
  then show ?thesis by simp
qed

text \<open>
  The credential table is in ascending index order in every store the program can
  produce: a new row goes to the end with an index above every index of the table, and
  no other statement writes an index or moves a row.
\<close>

lemma reachable_index_order:
  "reachable d \<Longrightarrow> sorted (map key_index (api_keys d))"
proof (induction rule: reachable.induct)
  case init_db
  show ?case by simp
next
  case (added d new_id k v)
  have "\<forall>x\<in>set (api_keys d). key_index x \<le> next_key_index d"
    using next_key_index_greater[of d] by auto
  with added.IH show ?case
    by (simp add: add_api_key_def Let_def sorted_append)
next
  case (deleted d kid)
  then show ?case
    by (simp add: delete_api_key_def sorted_map sorted_wrt_filter)
next
  case (balance_updated d t kid balance next_reset)
  have "map key_index (api_keys (update_key_balance t kid balance next_reset d))
        = map key_index (api_keys d)"
    by (simp add: update_key_balance_def comp_def if_distrib cong: if_cong)
  with balance_updated.IH show ?case by simp
next
  case (bound d kid v)
  have "map key_index (api_keys (bind_key_to_vless kid v d)) = map key_index (api_keys d)"
    by (simp add: bind_key_to_vless_def comp_def if_distrib cong: if_cong)
  with bound.IH show ?case by simp
next
  case (deactivated d kid)
  have "map key_index (api_keys (deactivate_key kid d)) = map key_index (api_keys d)"
    by (simp add: deactivate_key_def comp_def if_distrib cong: if_cong)
  with deactivated.IH show ?case by simp
next
  case (reactivated d)
  have "map key_index (api_keys (reactivate_keys_after_reset d)) = map key_index (api_keys d)"
    by (simp add: reactivate_keys_after_reset_def comp_def)
  with reactivated.IH show ?case by simp
next
  case (vless_deleted d vid)
  have "map key_index (api_keys (delete_vless vid d)) = map key_index (api_keys d)"
    by (simp add: delete_vless_def comp_def if_distrib cong: if_cong)
  with vless_deleted.IH show ?case by simp
next
  case (other_tables d vs ts l)
  then show ?case by simp
qed

text \<open>
  The stores of the examples are stores the program can produce: three admissions,
  then the balances as the reconciliation loop writes them, and a deactivation.
\<close>

lemma example_stores_reachable:
  "reachable selection_db" "reachable tied_db" "reachable three_keys_db"
proof -
  let ?t = "''2025-01-01 00:00:00''"
  let ?d0 = "\<lparr>api_keys = [], vless_configs = [], service_tokens = [], request_log = []\<rparr>"
  have a: "selection_db =
      deactivate_key 3
        (update_key_balance ?t 3 (Some 9) None
          (update_key_balance ?t 2 (Some (1/20)) None
            (update_key_balance ?t 1 (Some (1/2)) None
              (snd (add_api_key 3 ''sk3'' None
                (snd (add_api_key 2 ''sk2'' None
                  (snd (add_api_key 1 ''sk1'' None ?d0)))))))))"
    by (simp add: selection_db_def mk_db_def mk_key_def add_api_key_def next_key_index_def
        update_key_balance_def deactivate_key_def Let_def)
  have b: "tied_db =
      update_key_balance ?t 3 (Some (1/4)) None
        (update_key_balance ?t 2 (Some (1/2)) None
          (update_key_balance ?t 1 (Some (1/2)) None
            (snd (add_api_key 3 ''sk3'' None
              (snd (add_api_key 2 ''sk2'' None
                (snd (add_api_key 1 ''sk1'' None ?d0))))))))"
    by (simp add: tied_db_def mk_db_def mk_key_def add_api_key_def next_key_index_def
        update_key_balance_def Let_def)
  have c: "three_keys_db =
      (update_key_balance ?t 3 (Some 1) None
        (update_key_balance ?t 2 (Some 2) None
          (update_key_balance ?t 1 (Some 3) None
            (snd (add_api_key 3 ''skC'' None
              (snd (add_api_key 2 ''skB'' None
                (snd (add_api_key 1 ''skA'' None ?d0)))))))))
      \<lparr>vless_configs := [],
        service_tokens := [\<lparr>token_id = 7, token = ''tok'', token_name = ''svc'', token_is_active = True\<rparr>],
        request_log := []\<rparr>"
    by (simp add: three_keys_db_def mk_key_def add_api_key_def next_key_index_def
        update_key_balance_def Let_def)
  show "reachable selection_db"
    unfolding a
    by (intro reachable.deactivated reachable.balance_updated reachable.added reachable.init_db)
  show "reachable tied_db"
    unfolding b
    by (intro reachable.balance_updated reachable.added reachable.init_db)
  show "reachable three_keys_db"
    unfolding c
    by (intro reachable.other_tables reachable.balance_updated reachable.added reachable.init_db)
qed

text \<open>
  On a table in ascending index order, the order of the query and the order of the
  specification are the same.
\<close>

lemma spec_insert_eq:
  assumes "\<forall>y\<in>set S. key_index x \<le> key_index y"
  shows "spec_insert x S = insert_desc x S"
  using assms
proof (induction S)
  case Nil
  show ?case by simp
next
  case (Cons y ys)
  then have "spec_before x y = balance_ge (pollen_balance x) (pollen_balance y)"
    by (simp add: spec_before_def balance_ge_refl)
  with Cons show ?case by simp
qed

lemma set_foldr_insert_desc: "set (foldr insert_desc rows []) = set rows"
  using set_order_by_balance_desc[of rows] by (simp add: order_by_balance_desc_def)

lemma spec_order_eq:
  assumes "sorted (map key_index rows)"
  shows "foldr spec_insert rows [] = foldr insert_desc rows []"
  using assms
proof (induction rows)
  case Nil
  show ?case by simp
next
  case (Cons x rows)
  then have ih: "foldr spec_insert rows [] = foldr insert_desc rows []"
    and le: "\<forall>y\<in>set rows. key_index x \<le> key_index y"
    by auto
  from le have "\<forall>y\<in>set (foldr insert_desc rows []). key_index x \<le> key_index y"
    by (simp add: set_foldr_insert_desc)
  then show ?case by (simp add: ih spec_insert_eq)
qed

lemma select_best_spec_eq:
  assumes "sorted (map key_index (api_keys d))"
  shows "map_option fst (get_active_key d thr excl) = select_best_spec d thr excl"
proof -
  have "sorted (map key_index (filter (eligible thr) (api_keys d)))"
    using assms by (simp add: sorted_map sorted_wrt_filter)
  then have "foldr spec_insert (filter (eligible thr) (api_keys d)) []
             = order_by_balance_desc (filter (eligible thr) (api_keys d))"
    by (simp add: spec_order_eq order_by_balance_desc_def)
  then show ?thesis
    by (simp add: get_active_key_def select_best_spec_def option.map_comp comp_def option.map_ident)
qed

lemma balance_ge_known:
  assumes "balance_ge p q" and "q = Some bx"
  shows "\<exists>br. p = Some br \<and> bx \<le> br"
  using assms by (cases p) auto

lemma not_balance_ge_known:
  assumes "\<not> balance_ge q p"
  shows "\<exists>br. p = Some br \<and> (\<forall>bx. q = Some bx \<longrightarrow> bx \<le> br)"
  using assms by (cases p; cases q) auto

lemma acceptable_iff:
  "acceptable thr excl x \<longleftrightarrow>
     is_active x \<and> (\<forall>b. pollen_balance x = Some b \<longrightarrow> thr \<le> b) \<and> key_id x \<notin> excl"
  by (auto simp: acceptable_def eligible_def split: option.splits)

text \<open>
  Claim C2. The credential table holds its rows in ascending index order, as every
  store the program can produce does. For every threshold and every set of excluded
  ids, \<^verbatim>\<open>get_active_key\<close> returns nothing exactly when no row is active, of unknown
  balance or of balance at least the threshold (a balance equal to the threshold is
  enough), and not excluded. Otherwise it returns such a row \<open>r\<close> of the table, with the
  config index of its tunnel, and among all such rows \<open>r\<close> is the first in the order
  "balance descending, unknown balances last, ties broken by ascending index": every
  known balance among them is at most the balance of \<open>r\<close>, which is then known, and a row
  of the same balance as \<open>r\<close> has an index that is not smaller. The result is the one of
  the selection as the specification words it. Rows that tie on the balance are taken
  to leave the query in the order of the scan.
\<close>

theorem get_active_key_selects_best:
  assumes srt: "sorted (map key_index (api_keys d))"
  shows "(get_active_key d thr excl = None \<longleftrightarrow>
            (\<forall>x\<in>set (api_keys d).
               \<not> (is_active x \<and> (\<forall>b. pollen_balance x = Some b \<longrightarrow> thr \<le> b) \<and> key_id x \<notin> excl)))
       \<and> (\<forall>r vi. get_active_key d thr excl = Some (r, vi) \<longrightarrow>
            r \<in> set (api_keys d) \<and> is_active r
          \<and> (\<forall>b. pollen_balance r = Some b \<longrightarrow> thr \<le> b) \<and> key_id r \<notin> excl
          \<and> vi = vless_config_index_of d r
          \<and> (\<forall>x\<in>set (api_keys d).
                is_active x \<and> (\<forall>b. pollen_balance x = Some b \<longrightarrow> thr \<le> b) \<and> key_id x \<notin> excl \<longrightarrow>
                  (\<forall>bx. pollen_balance x = Some bx \<longrightarrow>
                         (\<exists>br. pollen_balance r = Some br \<and> bx \<le> br))
                \<and> (pollen_balance x = pollen_balance r \<longrightarrow> key_index r \<le> key_index x)))
       \<and> map_option fst (get_active_key d thr excl) = select_best_spec d thr excl"
proof -
  have none: "get_active_key d thr excl = None \<longleftrightarrow>
            (\<forall>x\<in>set (api_keys d).
               \<not> (is_active x \<and> (\<forall>b. pollen_balance x = Some b \<longrightarrow> thr \<le> b) \<and> key_id x \<notin> excl))"
    by (simp add: get_active_key_None filter_empty_conv acceptable_iff)
  have spec: "map_option fst (get_active_key d thr excl) = select_best_spec d thr excl"
    using srt by (rule select_best_spec_eq)
  have some: "\<forall>r vi. get_active_key d thr excl = Some (r, vi) \<longrightarrow>
            r \<in> set (api_keys d) \<and> is_active r
          \<and> (\<forall>b. pollen_balance r = Some b \<longrightarrow> thr \<le> b) \<and> key_id r \<notin> excl
          \<and> vi = vless_config_index_of d r
          \<and> (\<forall>x\<in>set (api_keys d).
                is_active x \<and> (\<forall>b. pollen_balance x = Some b \<longrightarrow> thr \<le> b) \<and> key_id x \<notin> excl \<longrightarrow>
                  (\<forall>bx. pollen_balance x = Some bx \<longrightarrow>
                         (\<exists>br. pollen_balance r = Some br \<and> bx \<le> br))
                \<and> (pollen_balance x = pollen_balance r \<longrightarrow> key_index r \<le> key_index x))"
  proof (intro allI impI)
    fix r vi assume g: "get_active_key d thr excl = Some (r, vi)"
    from get_active_key_Some(2)[OF g] obtain pre post where
      dec: "filter (acceptable thr excl) (api_keys d) = pre @ r # post"
      and pre: "\<forall>x\<in>set pre. \<not> balance_ge (pollen_balance x) (pollen_balance r)"
      and post: "\<forall>x\<in>set post. balance_ge (pollen_balance r) (pollen_balance x)"
      by blast
    from dec have "r \<in> set (filter (acceptable thr excl) (api_keys d))" by simp
    then have r: "r \<in> set (api_keys d)" "acceptable thr excl r" by simp_all
    from r(2) have r2: "is_active r \<and> (\<forall>b. pollen_balance r = Some b \<longrightarrow> thr \<le> b) \<and> key_id r \<notin> excl"
      by (simp add: acceptable_iff)
    from g have vi: "vi = vless_config_index_of d r" by (rule get_active_key_Some(1))
    have best: "\<forall>x\<in>set (api_keys d).
          is_active x \<and> (\<forall>b. pollen_balance x = Some b \<longrightarrow> thr \<le> b) \<and> key_id x \<notin> excl \<longrightarrow>
            (\<forall>bx. pollen_balance x = Some bx \<longrightarrow> (\<exists>br. pollen_balance r = Some br \<and> bx \<le> br))
          \<and> (pollen_balance x = pollen_balance r \<longrightarrow> key_index r \<le> key_index x)"
    proof (intro ballI impI conjI allI)
      fix x bx
      assume x: "x \<in> set (api_keys d)"
        and ok: "is_active x \<and> (\<forall>b. pollen_balance x = Some b \<longrightarrow> thr \<le> b) \<and> key_id x \<notin> excl"
        and bx: "pollen_balance x = Some bx"
      from x ok have "x \<in> set (filter (acceptable thr excl) (api_keys d))"
        by (simp add: acceptable_iff)
      with dec have "x \<in> set pre \<or> x = r \<or> x \<in> set post" by auto
      then show "\<exists>br. pollen_balance r = Some br \<and> bx \<le> br"
      proof (elim disjE)
        assume "x \<in> set pre"
        with pre have "\<not> balance_ge (pollen_balance x) (pollen_balance r)" by simp
        from not_balance_ge_known[OF this] bx show ?thesis by auto
      next
        assume "x = r"
        with bx show ?thesis by simp
      next
        assume "x \<in> set post"
        with post have "balance_ge (pollen_balance r) (pollen_balance x)" by simp
        then show ?thesis using bx by (rule balance_ge_known)
      qed
    next
      fix x
      assume x: "x \<in> set (api_keys d)"
        and ok: "is_active x \<and> (\<forall>b. pollen_balance x = Some b \<longrightarrow> thr \<le> b) \<and> key_id x \<notin> excl"
        and eq: "pollen_balance x = pollen_balance r"
      from x ok have xin: "x \<in> set (filter (acceptable thr excl) (api_keys d))"
        by (simp add: acceptable_iff)
      from dec pre srt xin eq show "key_index r \<le> key_index x"
        by (rule first_maximal_least_index)
    qed
    from r(1) r2 vi best
    show "r \<in> set (api_keys d) \<and> is_active r
          \<and> (\<forall>b. pollen_balance r = Some b \<longrightarrow> thr \<le> b) \<and> key_id r \<notin> excl
          \<and> vi = vless_config_index_of d r
          \<and> (\<forall>x\<in>set (api_keys d).
                is_active x \<and> (\<forall>b. pollen_balance x = Some b \<longrightarrow> thr \<le> b) \<and> key_id x \<notin> excl \<longrightarrow>
                  (\<forall>bx. pollen_balance x = Some bx \<longrightarrow>
                         (\<exists>br. pollen_balance r = Some br \<and> bx \<le> br))
                \<and> (pollen_balance x = pollen_balance r \<longrightarrow> key_index r \<le> key_index x))"
      by (intro conjI) simp_all
  qed
  show ?thesis by (rule conjI[OF none conjI[OF some spec]])
qed

lemmas pool_defs = get_active_key_def order_by_balance_desc_def eligible_def acceptable_def
  vless_config_index_of_def

text \<open>
  The selection example of the specification: credentials 1 (active, 0.5), 2 (active,
  0.05) and 3 (inactive, 9) with threshold 0.1 give credential 1, and nothing once id 1 is
  excluded. With threshold 0.05 and id 1 excluded, credential 2 is selected: its balance
  equals the threshold. Of two credentials with the same balance, the one of the smaller
  index is selected.
\<close>

theorem get_active_key_selects_best_witness:
  "sorted (map key_index (api_keys selection_db))
   \<and> get_active_key selection_db (1/10) {} = Some (mk_key 1 ''sk1'' 0 True (Some (1/2)), None)
   \<and> get_active_key selection_db (1/10) {1} = None
   \<and> get_active_key selection_db (1/20) {1} = Some (mk_key 2 ''sk2'' 1 True (Some (1/20)), None)
   \<and> select_best_spec selection_db (1/10) {} = Some (mk_key 1 ''sk1'' 0 True (Some (1/2)))
   \<and> select_best_spec selection_db (1/20) {1} = Some (mk_key 2 ''sk2'' 1 True (Some (1/20)))
   \<and> select_best_spec selection_db (1/10) {1} = None
   \<and> map_option (key_index \<circ> fst) (get_active_key tied_db (1/10) {}) = Some 0
   \<and> map_option (key_index \<circ> fst) (get_active_key tied_db (1/10) {1}) = Some 1"
proof -
  have s: "sorted (map key_index (api_keys selection_db))"
    by (simp add: selection_db_def mk_db_def mk_key_def)
  have e: "get_active_key selection_db (1/10) {} = Some (mk_key 1 ''sk1'' 0 True (Some (1/2)), None)"
    "get_active_key selection_db (1/10) {1} = None"
    "get_active_key selection_db (1/20) {1} = Some (mk_key 2 ''sk2'' 1 True (Some (1/20)), None)"
    "map_option (key_index \<circ> fst) (get_active_key tied_db (1/10) {}) = Some 0"
    "map_option (key_index \<circ> fst) (get_active_key tied_db (1/10) {1}) = Some 1"
    by (simp_all add: pool_defs selection_db_def tied_db_def mk_db_def mk_key_def)
  from get_active_key_selects_best[OF s, of "1/10" "{}"]
  have "map_option fst (get_active_key selection_db (1/10) {}) = select_best_spec selection_db (1/10) {}"
    by blast
  moreover from get_active_key_selects_best[OF s, of "1/20" "{1}"]
  have "map_option fst (get_active_key selection_db (1/20) {1}) = select_best_spec selection_db (1/20) {1}"
    by blast
  moreover from get_active_key_selects_best[OF s, of "1/10" "{1}"]
  have "map_option fst (get_active_key selection_db (1/10) {1}) = select_best_spec selection_db (1/10) {1}"
    by blast
  ultimately show ?thesis using s e by simp
qed
section \<open>The rotation of the proxy path\<close>

lemma keys_dict_set: "fst ` set (dict_set k v m) = insert k (fst ` set m)"
  by (induction m) auto

lemma map_of_dict_set: "map_of (dict_set k v m) = (map_of m)(k \<mapsto> v)"
  by (induction m) (auto simp: fun_eq_iff)

lemma distinct_dict_set: "distinct (map fst m) \<Longrightarrow> distinct (map fst (dict_set k v m))"
  by (induction m) (auto simp: keys_dict_set)

lemma fold_headers_keys:
  "fst ` set (fold (\<lambda>kv hs. if P (fst kv) then dict_set (fst kv) (snd kv) hs else hs) xs acc)
     = fst ` set acc \<union> {k \<in> fst ` set xs. P k}"
  by (induction xs arbitrary: acc) (auto simp: keys_dict_set)

lemma fold_headers_distinct:
  "distinct (map fst acc) \<Longrightarrow>
   distinct (map fst (fold (\<lambda>kv hs. if P (fst kv) then dict_set (fst kv) (snd kv) hs else hs) xs acc))"
  by (induction xs arbitrary: acc) (auto simp: distinct_dict_set)

lemma fold_headers_map_of:
  "map_of (fold (\<lambda>kv hs. if P (fst kv) then dict_set (fst kv) (snd kv) hs else hs) xs acc)
     = map_of (rev (filter (\<lambda>kv. P (fst kv)) xs) @ acc)"
proof (induction xs arbitrary: acc)
  case Nil
  show ?case by simp
next
  case (Cons x xs)
  show ?case
  proof (cases "P (fst x)")
    case True
    have "map_of (dict_set (fst x) (snd x) acc) = map_of (x # acc)"
      by (simp add: map_of_dict_set fun_eq_iff)
    then have "map_of (rev (filter (\<lambda>kv. P (fst kv)) xs) @ dict_set (fst x) (snd x) acc)
        = map_of (rev (filter (\<lambda>kv. P (fst kv)) xs) @ x # acc)"
      by (simp only: map_of_append)
    with True Cons.IH[of "dict_set (fst x) (snd x) acc"] show ?thesis by simp
  next
    case False
    with Cons.IH[of acc] show ?thesis by simp
  qed
qed

text \<open>
  What \<^verbatim>\<open>_proxy_response\<close> returns when the body can be read: the status and the bytes
  of the upstream response, and its headers without the hop-by-hop ones, each name
  once with the value of its last occurrence.
\<close>

lemma proxy_response_relays:
  assumes "\<not> up_read_raises r"
  shows "\<exists>resp. proxy_response r = Some resp
           \<and> response_status resp = up_status r
           \<and> response_body resp = concat (up_chunks r)
           \<and> distinct (map fst (response_headers resp))
           \<and> map_of (response_headers resp) =
               map_of (rev (filter (\<lambda>kv. lower (fst kv) \<notin> HOP_BY_HOP) (up_headers r)))"
proof -
  let ?hs = "fold (\<lambda>kv hs. if lower (fst kv) \<notin> HOP_BY_HOP then dict_set (fst kv) (snd kv) hs else hs)
               (up_headers r) []"
  have d: "distinct (map fst ?hs)"
    using fold_headers_distinct[of "[]" "\<lambda>k. lower k \<notin> HOP_BY_HOP" "up_headers r"] by simp
  have m: "map_of ?hs = map_of (rev (filter (\<lambda>kv. lower (fst kv) \<notin> HOP_BY_HOP) (up_headers r)))"
    using fold_headers_map_of[of "\<lambda>k. lower k \<notin> HOP_BY_HOP" "up_headers r" "[]"] by simp
  from assms d m show ?thesis
    by (simp add: proxy_response_def Let_def)
qed


lemma get_active_key_SomeD:
  assumes "get_active_key d thr T = Some (k, vi)"
  shows "k \<in> set (api_keys d)" and "acceptable thr T k"
    and "key_id k \<in> acceptable_ids thr T d" and "key_id k \<notin> T"
proof -
  from get_active_key_Some(2)[OF assms] obtain pre post where
    "filter (acceptable thr T) (api_keys d) = pre @ k # post" by blast
  then have "k \<in> set (filter (acceptable thr T) (api_keys d))" by simp
  then show "k \<in> set (api_keys d)" and a: "acceptable thr T k"
    and "key_id k \<in> acceptable_ids thr T d"
    by (auto simp: acceptable_ids_def)
  from a show "key_id k \<notin> T" by (simp add: acceptable_def)
qed

lemma get_active_key_None_ids:
  "get_active_key d thr T = None \<longleftrightarrow> acceptable_ids thr T d = {}"
  by (auto simp: get_active_key_None acceptable_ids_def filter_empty_conv)


lemma finite_acceptable_ids: "finite (acceptable_ids thr T d)"
  by (simp add: acceptable_ids_def)

lemma api_keys_exhaust:
  "api_keys (update_key_balance t kid (Some 0) None (deactivate_key kid d)) =
     map (exhaust_row t kid) (api_keys d)"
  by (simp add: update_key_balance_def deactivate_key_def exhaust_row_def)

lemma key_id_exhaust_row: "key_id (exhaust_row t kid x) = key_id x"
  by (simp add: exhaust_row_def)

lemma acceptable_exhaust_row:
  "acceptable thr (insert kid T) (exhaust_row t kid x) \<longleftrightarrow> acceptable thr T x \<and> key_id x \<noteq> kid"
  by (auto simp: acceptable_def exhaust_row_def)

lemma acceptable_ids_exhaust:
  assumes "api_keys d' = map (exhaust_row t kid) (api_keys d)"
  shows "acceptable_ids thr (insert kid T) d' = acceptable_ids thr T d - {kid}"
proof -
  let ?f = "exhaust_row t kid"
  let ?Q = "\<lambda>x. acceptable thr T x \<and> key_id x \<noteq> kid"
  have "filter (acceptable thr (insert kid T)) (map ?f (api_keys d)) = map ?f (filter ?Q (api_keys d))"
    by (simp add: filter_map comp_def acceptable_exhaust_row)
  then have "acceptable_ids thr (insert kid T) d' = key_id ` set (map ?f (filter ?Q (api_keys d)))"
    by (simp add: acceptable_ids_def assms)
  also have "\<dots> = key_id ` set (filter ?Q (api_keys d))"
    by (simp add: image_image key_id_exhaust_row)
  also have "\<dots> = acceptable_ids thr T d - {kid}"
    by (auto simp: acceptable_ids_def)
  finally show ?thesis .
qed

lemma exhausted_only_step:
  assumes k1: "keys1 = map (exhaust_row t kid) keys"
    and rest: "exhausted_only ids keys1 keys'"
    and kid: "kid \<notin> ids"
  shows "exhausted_only (insert kid ids) keys keys'"
proof -
  have len: "length keys1 = length keys" by (simp add: k1)
  from rest have l2: "length keys' = length keys1"
    by (simp add: exhausted_only_def list_all2_lengthD)
  show ?thesis
    unfolding exhausted_only_def
  proof (rule list_all2_all_nthI)
    show "length keys = length keys'" using len l2 by simp
  next
    fix n assume n: "n < length keys"
    let ?x = "keys ! n" and ?x1 = "keys1 ! n" and ?x' = "keys' ! n"
    have x1: "?x1 = exhaust_row t kid ?x" using n by (simp add: k1)
    from rest n len have r: "if key_id ?x1 \<in> ids then exhausted ?x1 ?x' else ?x' = ?x1"
      by (simp add: exhausted_only_def list_all2_conv_all_nth)
    have id1: "key_id ?x1 = key_id ?x" by (simp add: x1 key_id_exhaust_row)
    show "if key_id ?x \<in> insert kid ids then exhausted ?x ?x' else ?x' = ?x"
    proof (cases "key_id ?x = kid")
      case True
      with kid r id1 have "?x' = ?x1" by simp
      with True x1 show ?thesis
        by (simp add: exhausted_def exhaust_row_def)
    next
      case False
      then have "?x1 = ?x" by (simp add: x1 exhaust_row_def)
      with r False show ?thesis by (auto split: if_splits)
    qed
  qed
qed

lemma exhausted_only_refl: "exhausted_only {} keys keys"
  by (simp add: exhausted_only_def list_all2_same)


lemma frame_same_refl: "frame_same s s"
  by (simp add: frame_same_def)

lemma frame_same_trans: "frame_same s s1 \<Longrightarrow> frame_same s1 s2 \<Longrightarrow> frame_same s s2"
  by (simp add: frame_same_def)

declare try_keys.simps [simp del]

lemma try_keys_Nil: "try_keys e req tok [] T s = no_keys req tok s"
  by (simp add: try_keys.simps)

lemma try_keys_none:
  "get_active_key (store s) (balance_threshold e) T = None \<Longrightarrow>
   try_keys e req tok (a # later) T s = no_keys req tok (ask T s)"
  by (simp add: try_keys.simps)

lemma try_keys_transport_error:
  assumes "get_active_key (store s) (balance_threshold e) T = Some (k, vi)"
    and "upstream e a (attempt_request req (xray_running s) k vi) = TransportError"
  shows "try_keys e req tok (a # later) T s =
           (upstream_failed_response,
            log_outcome req tok ''exception'' (Some (key_id k))
              (attempted T (attempt_request req (xray_running s) k vi) s))"
  using assms by (simp add: try_keys.simps Let_def)

lemma try_keys_relay:
  assumes "get_active_key (store s) (balance_threshold e) T = Some (k, vi)"
    and "upstream e a (attempt_request req (xray_running s) k vi) = Responded r"
    and "up_status r \<noteq> 402"
    and "proxy_response r = Some resp"
  shows "try_keys e req tok (a # later) T s =
           (resp,
            log_outcome req tok (status_str (up_status r)) (Some (key_id k))
              (attempted T (attempt_request req (xray_running s) k vi) s))"
  using assms by (simp add: try_keys.simps Let_def)

lemma try_keys_relay_raises:
  assumes "get_active_key (store s) (balance_threshold e) T = Some (k, vi)"
    and "upstream e a (attempt_request req (xray_running s) k vi) = Responded r"
    and "up_status r \<noteq> 402"
    and "proxy_response r = None"
  shows "try_keys e req tok (a # later) T s =
           (upstream_failed_response,
            log_outcome req tok ''exception'' (Some (key_id k))
              (log_outcome req tok (status_str (up_status r)) (Some (key_id k))
                 (attempted T (attempt_request req (xray_running s) k vi) s)))"
  using assms by (simp add: try_keys.simps Let_def)

lemma try_keys_402_step:
  assumes sel: "get_active_key (store s) (balance_threshold e) T = Some (k, vi)"
    and up: "upstream e a (attempt_request req (xray_running s) k vi) = Responded r"
    and st: "up_status r = 402"
  shows "\<exists>s1. try_keys e req tok (a # later) T s = try_keys e req tok later (insert (key_id k) T) s1
          \<and> api_keys (store s1) = map (exhaust_row (now e a) (key_id k)) (api_keys (store s))
          \<and> request_log (store s1) =
              request_log (store s) @ [outcome_entry req tok ''key_exhausted'' (Some (key_id k))]
          \<and> sent s1 = sent s @ [attempt_request req (xray_running s) k vi]
          \<and> asked s1 = asked s @ [T]
          \<and> frame_same s s1"
proof -
  let ?q = "attempt_request req (xray_running s) k vi"
  let ?s1 = "log_outcome req tok ''key_exhausted'' (Some (key_id k))
               ((attempted T ?q s)\<lparr>store := update_key_balance (now e a) (key_id k) (Some 0) None
                    (deactivate_key (key_id k) (store s))\<rparr>)"
  have "try_keys e req tok (a # later) T s = try_keys e req tok later (insert (key_id k) T) ?s1"
    using sel up st by (simp add: try_keys.simps Let_def attempted_def)
  moreover have "api_keys (store ?s1) = map (exhaust_row (now e a) (key_id k)) (api_keys (store s))"
    by (simp add: log_outcome_def add_request_log_def api_keys_exhaust)
  moreover have "request_log (store ?s1) =
      request_log (store s) @ [outcome_entry req tok ''key_exhausted'' (Some (key_id k))]"
    by (simp add: log_outcome_def add_request_log_def outcome_entry_def
        update_key_balance_def deactivate_key_def)
  moreover have "sent ?s1 = sent s @ [?q]"
    by (simp add: log_outcome_def attempted_def)
  moreover have "asked ?s1 = asked s @ [T]"
    by (simp add: log_outcome_def attempted_def)
  moreover have "frame_same s ?s1"
    by (simp add: frame_same_def log_outcome_def add_request_log_def
        update_key_balance_def deactivate_key_def attempted_def)
  ultimately show ?thesis by blast
qed

lemma try_keys_exhausted_prefix:
  assumes "j \<le> length as"
    and "\<forall>i<j. \<forall>q. \<exists>r. upstream e (as ! i) q = Responded r \<and> up_status r = 402"
    and "j \<le> card (acceptable_ids (balance_threshold e) T (store s))"
  shows "\<exists>ids s'. try_keys e req tok as T s = try_keys e req tok (drop j as) (T \<union> set ids) s'
          \<and> length ids = j \<and> distinct ids
          \<and> set ids \<subseteq> acceptable_ids (balance_threshold e) T (store s)
          \<and> acceptable_ids (balance_threshold e) (T \<union> set ids) (store s') =
              acceptable_ids (balance_threshold e) T (store s) - set ids
          \<and> exhausted_only (set ids) (api_keys (store s)) (api_keys (store s'))
          \<and> request_log (store s') =
              request_log (store s) @ map (\<lambda>i. outcome_entry req tok ''key_exhausted'' (Some i)) ids
          \<and> length (sent s') = length (sent s) + j
          \<and> asked s' = asked s @ map (\<lambda>n. T \<union> set (take n ids)) [0..<j]
          \<and> frame_same s s'"
  using assms
proof (induction j arbitrary: as T s)
  case 0
  have "try_keys e req tok as T s = try_keys e req tok (drop 0 as) (T \<union> set []) s
          \<and> length ([]::int list) = 0 \<and> distinct ([]::int list)
          \<and> set [] \<subseteq> acceptable_ids (balance_threshold e) T (store s)
          \<and> acceptable_ids (balance_threshold e) (T \<union> set []) (store s) =
              acceptable_ids (balance_threshold e) T (store s) - set []
          \<and> exhausted_only (set []) (api_keys (store s)) (api_keys (store s))
          \<and> request_log (store s) =
              request_log (store s) @ map (\<lambda>i. outcome_entry req tok ''key_exhausted'' (Some i)) []
          \<and> length (sent s) = length (sent s) + 0
          \<and> asked s = asked s @ map (\<lambda>n. T \<union> set (take n [])) [0..<0]
          \<and> frame_same s s"
    by (simp add: exhausted_only_refl frame_same_refl)
  then show ?case by blast
next
  case (Suc j)
  let ?thr = "balance_threshold e"
  let ?A = "acceptable_ids ?thr T (store s)"
  from Suc.prems(1) obtain a later where as: "as = a # later"
    by (cases as) auto
  from Suc.prems(3) have "?A \<noteq> {}" by auto
  then obtain k vi where sel: "get_active_key (store s) ?thr T = Some (k, vi)"
    using get_active_key_None_ids[of "store s" ?thr T]
    by (cases "get_active_key (store s) ?thr T") auto
  let ?kid = "key_id k"
  have kA: "?kid \<in> ?A" and kT: "?kid \<notin> T"
    using get_active_key_SomeD[OF sel] by simp_all
  from Suc.prems(2) as obtain r where
    up: "upstream e a (attempt_request req (xray_running s) k vi) = Responded r"
    and st: "up_status r = 402"
    by fastforce
  from try_keys_402_step[OF sel up st, where tok=tok and later=later] obtain s1 where
    step: "try_keys e req tok (a # later) T s = try_keys e req tok later (insert ?kid T) s1"
    and keys1: "api_keys (store s1) = map (exhaust_row (now e a) ?kid) (api_keys (store s))"
    and log1: "request_log (store s1) =
        request_log (store s) @ [outcome_entry req tok ''key_exhausted'' (Some ?kid)]"
    and sent1: "sent s1 = sent s @ [attempt_request req (xray_running s) k vi]"
    and asked1: "asked s1 = asked s @ [T]"
    and fr1: "frame_same s s1"
    by blast
  have A1: "acceptable_ids ?thr (insert ?kid T) (store s1) = ?A - {?kid}"
    using keys1 by (rule acceptable_ids_exhaust)
  have p1: "j \<le> length later" using Suc.prems(1) as by simp
  have p2: "\<forall>i<j. \<forall>q. \<exists>r. upstream e (later ! i) q = Responded r \<and> up_status r = 402"
    using Suc.prems(2) as by auto
  have p3: "j \<le> card (acceptable_ids ?thr (insert ?kid T) (store s1))"
    using Suc.prems(3) kA by (simp add: A1 finite_acceptable_ids)
  from Suc.IH[OF p1 p2 p3] obtain ids s' where
    run: "try_keys e req tok later (insert ?kid T) s1 =
          try_keys e req tok (drop j later) (insert ?kid T \<union> set ids) s'"
    and len: "length ids = j" and dist: "distinct ids"
    and sub: "set ids \<subseteq> acceptable_ids ?thr (insert ?kid T) (store s1)"
    and acc: "acceptable_ids ?thr (insert ?kid T \<union> set ids) (store s') =
              acceptable_ids ?thr (insert ?kid T) (store s1) - set ids"
    and exh: "exhausted_only (set ids) (api_keys (store s1)) (api_keys (store s'))"
    and log: "request_log (store s') =
              request_log (store s1) @ map (\<lambda>i. outcome_entry req tok ''key_exhausted'' (Some i)) ids"
    and snt: "length (sent s') = length (sent s1) + j"
    and ask: "asked s' = asked s1 @ map (\<lambda>n. insert ?kid T \<union> set (take n ids)) [0..<j]"
    and fr: "frame_same s1 s'"
    by blast
  from sub A1 have notin: "?kid \<notin> set ids" by auto
  have c1: "try_keys e req tok as T s =
            try_keys e req tok (drop (Suc j) as) (T \<union> set (?kid # ids)) s'"
    using step run as by simp
  have c2: "length (?kid # ids) = Suc j" "distinct (?kid # ids)"
    using len dist notin by simp_all
  have c3: "set (?kid # ids) \<subseteq> ?A"
    using sub A1 kA by auto
  have c4: "acceptable_ids ?thr (T \<union> set (?kid # ids)) (store s') = ?A - set (?kid # ids)"
    using acc A1 by auto
  have c5: "exhausted_only (set (?kid # ids)) (api_keys (store s)) (api_keys (store s'))"
    using exhausted_only_step[OF keys1 exh notin] by simp
  have c6: "request_log (store s') =
      request_log (store s) @ map (\<lambda>i. outcome_entry req tok ''key_exhausted'' (Some i)) (?kid # ids)"
    using log log1 by simp
  have c7: "length (sent s') = length (sent s) + Suc j"
    using snt sent1 by simp
  have c8: "frame_same s s'"
    using fr1 fr by (rule frame_same_trans)
  have "map (\<lambda>n. T \<union> set (take n (?kid # ids))) [0..<Suc j]
        = T # map (\<lambda>n. insert ?kid T \<union> set (take n ids)) [0..<j]"
    by (simp only: map_upt_Suc) simp
  then have c9: "asked s' = asked s @ map (\<lambda>n. T \<union> set (take n (?kid # ids))) [0..<Suc j]"
    using ask asked1 by simp
  from c1 c2 c3 c4 c5 c6 c7 c8 c9 show ?case by blast
qed


lemma logged_attempt:
  "api_keys (store (log_outcome req tok out kid (attempted T q s))) = api_keys (store s)"
  "request_log (store (log_outcome req tok out kid (attempted T q s))) =
     request_log (store s) @ [outcome_entry req tok out kid]"
  "sent (log_outcome req tok out kid (attempted T q s)) = sent s @ [q]"
  "frame_same s (log_outcome req tok out kid (attempted T q s))"
  "asked (log_outcome req tok out kid (attempted T q s)) = asked s @ [T]"
  by (simp_all add: log_outcome_def add_request_log_def outcome_entry_def frame_same_def
      attempted_def)

lemma logged_outcome:
  "api_keys (store (log_outcome req tok out kid s)) = api_keys (store s)"
  "request_log (store (log_outcome req tok out kid s)) =
     request_log (store s) @ [outcome_entry req tok out kid]"
  "sent (log_outcome req tok out kid s) = sent s"
  "frame_same s (log_outcome req tok out kid s)"
  "asked (log_outcome req tok out kid s) = asked s"
  by (simp_all add: log_outcome_def add_request_log_def outcome_entry_def frame_same_def)

lemma asked_state:
  "store (ask T s) = store s" "sent (ask T s) = sent s" "asked (ask T s) = asked s @ [T]"
  "frame_same s (ask T s)"
  "store (attempted T q s) = store s" "sent (attempted T q s) = sent s @ [q]"
  "asked (attempted T q s) = asked s @ [T]" "frame_same s (attempted T q s)"
  "xray_running (attempted T q s) = xray_running s"
  by (simp_all add: ask_def attempted_def frame_same_def)

lemma attempts_length: "length [0..<3] = 3"
  by simp

lemma attempts_drop:
  assumes "j < 3"
  shows "drop j [0..<3] = j # [Suc j..<3]"
proof -
  have "drop j [0..<3] = [0 + j..<3]" by (rule drop_upt)
  also have "\<dots> = j # [Suc j..<3]"
    using assms upt_conv_Cons[of j 3] by (simp del: upt_rec_numeral)
  finally show ?thesis .
qed

lemma attempts_nth: "i < 3 \<Longrightarrow> [0..<3] ! i = i"
  by simp

text \<open>After \<open>j\<close> exhausted credentials, one of more than \<open>j\<close> is still there to select.\<close>

lemma selection_after_prefix:
  assumes "acceptable_ids thr (T \<union> set ids) d' = acceptable_ids thr T d - set ids"
    and "length ids = j" and "j < card (acceptable_ids thr T d)"
  shows "\<exists>k vi. get_active_key d' thr (T \<union> set ids) = Some (k, vi)
           \<and> key_id k \<in> acceptable_ids thr T d \<and> key_id k \<notin> set ids"
proof -
  have "card (set ids) \<le> j" using assms(2) card_length[of ids] by simp
  with assms(3) have "card (set ids) < card (acceptable_ids thr T d)" by simp
  then have "\<not> acceptable_ids thr T d \<subseteq> set ids"
    using card_mono[of "set ids" "acceptable_ids thr T d"] by auto
  then have ne: "acceptable_ids thr (T \<union> set ids) d' \<noteq> {}"
    using assms(1) by auto
  then obtain k vi where sel: "get_active_key d' thr (T \<union> set ids) = Some (k, vi)"
    using get_active_key_None_ids[of d' thr "T \<union> set ids"]
    by (cases "get_active_key d' thr (T \<union> set ids)") auto
  from get_active_key_SomeD(3)[OF sel] assms(1)
  have "key_id k \<in> acceptable_ids thr T d \<and> key_id k \<notin> set ids" by auto
  with sel show ?thesis by blast
qed

lemma response_status_proxy_response:
  "proxy_response r = Some resp \<Longrightarrow> response_status resp = up_status r"
  by (auto simp: proxy_response_def Let_def split: if_splits)


lemma proxy_handler_authenticated:
  assumes "req_path req \<noteq> ''/health''" "req_path req \<noteq> ''/status''"
    and "authenticate (store s) req = Inr tok"
  shows "proxy_handler e req s = try_keys e req tok [0..<3] {} s"
  using assms by (simp add: proxy_handler_def)

lemma try_keys_reaches_attempt:
  assumes j: "j < 3"
    and ex: "\<forall>i<j. \<forall>q. \<exists>r. upstream e i q = Responded r \<and> up_status r = 402"
    and pool: "j < card (acceptable_ids (balance_threshold e) {} (store s))"
  shows "\<exists>ids k vi s'.
           try_keys e req tok [0..<3] {} s = try_keys e req tok (j # [Suc j..<3]) (set ids) s'
         \<and> get_active_key (store s') (balance_threshold e) (set ids) = Some (k, vi)
         \<and> length ids = j \<and> distinct ids \<and> key_id k \<notin> set ids
         \<and> set ids \<subseteq> acceptable_ids (balance_threshold e) {} (store s)
         \<and> key_id k \<in> acceptable_ids (balance_threshold e) {} (store s)
         \<and> exhausted_only (set ids) (api_keys (store s)) (api_keys (store s'))
         \<and> request_log (store s') =
             request_log (store s) @ map (\<lambda>i. outcome_entry req tok ''key_exhausted'' (Some i)) ids
         \<and> length (sent s') = length (sent s) + j
         \<and> asked s' = asked s @ map (\<lambda>n. set (take n ids)) [0..<j]
         \<and> frame_same s s'"
proof -
  let ?thr = "balance_threshold e"
  have p1: "j \<le> length [0..<3]" using j by simp
  have p2: "\<forall>i<j. \<forall>q. \<exists>r. upstream e ([0..<3] ! i) q = Responded r \<and> up_status r = 402"
    using ex j by (simp del: upt_rec_numeral)
  have p3: "j \<le> card (acceptable_ids ?thr {} (store s))" using pool by simp
  from try_keys_exhausted_prefix[OF p1 p2 p3, of req tok] obtain ids s' where
    run: "try_keys e req tok [0..<3] {} s = try_keys e req tok (drop j [0..<3]) ({} \<union> set ids) s'"
    and len: "length ids = j" and dist: "distinct ids"
    and sub: "set ids \<subseteq> acceptable_ids ?thr {} (store s)"
    and acc: "acceptable_ids ?thr ({} \<union> set ids) (store s') = acceptable_ids ?thr {} (store s) - set ids"
    and rest: "exhausted_only (set ids) (api_keys (store s)) (api_keys (store s'))"
      "request_log (store s') =
         request_log (store s) @ map (\<lambda>i. outcome_entry req tok ''key_exhausted'' (Some i)) ids"
      "length (sent s') = length (sent s) + j"
      "asked s' = asked s @ map (\<lambda>n. {} \<union> set (take n ids)) [0..<j]"
      "frame_same s s'"
    by blast
  from selection_after_prefix[OF acc len pool] obtain k vi where
    sel: "get_active_key (store s') ?thr ({} \<union> set ids) = Some (k, vi)"
    and k: "key_id k \<in> acceptable_ids ?thr {} (store s)" "key_id k \<notin> set ids"
    by blast
  have "try_keys e req tok [0..<3] {} s = try_keys e req tok (j # [Suc j..<3]) (set ids) s'"
    using run attempts_drop[OF j] by simp
  moreover have "get_active_key (store s') ?thr (set ids) = Some (k, vi)"
    using sel by simp
  moreover have "asked s' = asked s @ map (\<lambda>n. set (take n ids)) [0..<j]"
    using rest(4) by simp
  ultimately show ?thesis using len dist sub k rest(1,2,3,5) by blast
qed

lemma try_keys_min_no_keys:
  assumes jmin: "j = min 3 (card (acceptable_ids (balance_threshold e) {} (store s)))"
    and ex: "\<forall>i<j. \<forall>q. \<exists>r. upstream e i q = Responded r \<and> up_status r = 402"
  shows "\<exists>ids s'. try_keys e req tok [0..<3] {} s = (no_keys_response, s')
         \<and> length ids = j \<and> distinct ids
         \<and> set ids \<subseteq> acceptable_ids (balance_threshold e) {} (store s)
         \<and> exhausted_only (set ids) (api_keys (store s)) (api_keys (store s'))
         \<and> request_log (store s') =
             request_log (store s) @ map (\<lambda>i. outcome_entry req tok ''key_exhausted'' (Some i)) ids
               @ [outcome_entry req tok ''no_keys'' None]
         \<and> length (sent s') = length (sent s) + j
         \<and> frame_same s s'"
proof -
  let ?thr = "balance_threshold e"
  let ?A = "acceptable_ids ?thr {} (store s)"
  have p1: "j \<le> length [0..<3]" using jmin by simp
  have j3: "j \<le> 3" using jmin by simp
  have p2: "\<forall>i<j. \<forall>q. \<exists>r. upstream e ([0..<3] ! i) q = Responded r \<and> up_status r = 402"
    using ex j3 by (simp del: upt_rec_numeral)
  have p3: "j \<le> card ?A" using jmin by simp
  from try_keys_exhausted_prefix[OF p1 p2 p3, of req tok] obtain ids s1 where
    run: "try_keys e req tok [0..<3] {} s = try_keys e req tok (drop j [0..<3]) ({} \<union> set ids) s1"
    and len: "length ids = j" and dist: "distinct ids"
    and sub: "set ids \<subseteq> ?A"
    and acc: "acceptable_ids ?thr ({} \<union> set ids) (store s1) = ?A - set ids"
    and exh: "exhausted_only (set ids) (api_keys (store s)) (api_keys (store s1))"
    and log: "request_log (store s1) =
         request_log (store s) @ map (\<lambda>i. outcome_entry req tok ''key_exhausted'' (Some i)) ids"
    and snt: "length (sent s1) = length (sent s) + j"
    and fr: "frame_same s s1"
    by blast
  have stop: "try_keys e req tok (drop j [0..<3]) ({} \<union> set ids) s1 = no_keys req tok s1
              \<or> try_keys e req tok (drop j [0..<3]) ({} \<union> set ids) s1
                  = no_keys req tok (ask ({} \<union> set ids) s1)"
  proof (cases "j = 3")
    case True
    then show ?thesis by (simp add: try_keys_Nil)
  next
    case False
    with jmin have jc: "j = card ?A" and "j < 3" by (auto simp: min_def split: if_splits)
    have "card (set ids) = card ?A" using dist len jc by (simp add: distinct_card)
    with sub have "set ids = ?A"
      by (simp add: card_subset_eq finite_acceptable_ids)
    with acc have "acceptable_ids ?thr ({} \<union> set ids) (store s1) = {}" by simp
    then have "get_active_key (store s1) ?thr ({} \<union> set ids) = None"
      by (simp add: get_active_key_None_ids)
    then show ?thesis
      using attempts_drop[OF \<open>j < 3\<close>] by (simp add: try_keys_none)
  qed
  from stop obtain s2 where s2: "s2 = s1 \<or> s2 = ask ({} \<union> set ids) s1"
    and stop2: "try_keys e req tok (drop j [0..<3]) ({} \<union> set ids) s1 = no_keys req tok s2"
    by blast
  from s2 have same: "store s2 = store s1" "sent s2 = sent s1" "frame_same s1 s2"
    by (auto simp: asked_state frame_same_refl)
  let ?s' = "log_outcome req tok ''no_keys'' None s2"
  have "try_keys e req tok [0..<3] {} s = (no_keys_response, ?s')"
    using run stop2 by (simp add: no_keys_def)
  moreover have "exhausted_only (set ids) (api_keys (store s)) (api_keys (store ?s'))"
    using exh by (simp add: logged_outcome same)
  moreover have "request_log (store ?s') =
      request_log (store s) @ map (\<lambda>i. outcome_entry req tok ''key_exhausted'' (Some i)) ids
        @ [outcome_entry req tok ''no_keys'' None]"
    using log by (simp add: logged_outcome same)
  moreover have "length (sent ?s') = length (sent s) + j"
    using snt by (simp add: logged_outcome same)
  moreover have "frame_same s ?s'"
    using frame_same_trans[OF fr same(3)] logged_outcome(4) by (rule frame_same_trans)
  ultimately show ?thesis using len dist sub by blast
qed

text \<open>The handler past a falsy error response.\<close>

lemma without_token_response: "fst (try_keys_without_token e req s) = Unhandled"
  by (simp add: try_keys_without_token_def Let_def split: option.splits upstream_result.splits)


lemma without_token_asked:
  "asked (snd (try_keys_without_token e req s)) = asked s @ [{}]"
  by (simp add: try_keys_without_token_def Let_def asked_state
      split: option.splits upstream_result.splits)

lemma without_token_frame: "frame_same s (snd (try_keys_without_token e req s))"
  by (simp add: try_keys_without_token_def Let_def asked_state frame_same_def
      update_key_balance_def deactivate_key_def ask_def attempted_def
      split: option.splits upstream_result.splits)

lemma without_token_sent:
  "get_active_key (store s) (balance_threshold e) {} = None \<Longrightarrow>
     sent (snd (try_keys_without_token e req s)) = sent s"
  "get_active_key (store s) (balance_threshold e) {} = Some (k, vi) \<Longrightarrow>
     sent (snd (try_keys_without_token e req s)) = sent s @ [attempt_request req (xray_running s) k vi]"
  by (simp_all add: try_keys_without_token_def Let_def asked_state
      split: upstream_result.splits)


lemma without_token_sent_bound:
  "length (sent (snd (try_keys_without_token e req s))) \<le> length (sent s) + 1"
  by (cases "get_active_key (store s) (balance_threshold e) {}")
     (auto simp: without_token_sent)

lemma failed_authentication_cases:
  assumes "req_path req \<noteq> ''/health''" "req_path req \<noteq> ''/status''"
    and "authenticate (store s) req = Inl err"
  shows "response_truthy e \<Longrightarrow> proxy_handler e req s = (err, s)"
    and "\<not> response_truthy e \<Longrightarrow> proxy_handler e req s = try_keys_without_token e req s"
  using assms by (simp_all add: proxy_handler_def)

lemma try_keys_sent_bound:
  "length (sent (snd (try_keys e req tok as T s))) \<le> length (sent s) + length as"
proof (induction as arbitrary: T s)
  case Nil
  show ?case by (simp add: try_keys_Nil no_keys_def logged_outcome)
next
  case (Cons a later)
  show ?case
  proof (cases "get_active_key (store s) (balance_threshold e) T")
    case None
    then show ?thesis by (simp add: try_keys_none no_keys_def logged_outcome asked_state)
  next
    case (Some kv)
    obtain k vi where kv: "kv = (k, vi)" by (cases kv)
    note sel = Some[unfolded kv]
    let ?q = "attempt_request req (xray_running s) k vi"
    show ?thesis
    proof (cases "upstream e a ?q")
      case TransportError
      show ?thesis
        by (simp add: try_keys_transport_error[OF sel TransportError] logged_attempt)
    next
      case (Responded r)
      show ?thesis
      proof (cases "up_status r = 402")
        case True
        from try_keys_402_step[OF sel Responded True, where tok=tok and later=later]
        obtain s1 where
          step: "try_keys e req tok (a # later) T s =
                 try_keys e req tok later (insert (key_id k) T) s1"
          and sent1: "sent s1 = sent s @ [?q]"
          by blast
        have "length (sent (snd (try_keys e req tok later (insert (key_id k) T) s1)))
              \<le> length (sent s1) + length later"
          by (rule Cons.IH)
        with step sent1 show ?thesis by simp
      next
        case False
        show ?thesis
        proof (cases "proxy_response r")
          case None
          show ?thesis
            by (simp add: try_keys_relay_raises[OF sel Responded False None]
                logged_attempt logged_outcome asked_state)
        next
          case (Some resp)
          show ?thesis
            by (simp add: try_keys_relay[OF sel Responded False Some] logged_attempt)
        qed
      qed
    qed
  qed
qed


lemma exhausted_fields:
  assumes "exhausted x x'"
  shows "key_id x' = key_id x" "\<not> is_active x'" "pollen_balance x' = Some 0"
proof -
  from assms have eq: "x'\<lparr>balance_checked_at := None\<rparr> =
      x\<lparr>is_active := False, pollen_balance := Some 0, next_reset_at := None,
        balance_checked_at := None\<rparr>"
    by (simp add: exhausted_def)
  from arg_cong[OF eq, of key_id] show "key_id x' = key_id x" by simp
  from arg_cong[OF eq, of is_active] show "\<not> is_active x'" by simp
  from arg_cong[OF eq, of pollen_balance] show "pollen_balance x' = Some 0" by simp
qed

lemma exhausted_only_untouched:
  assumes "exhausted_only ids keys keys'" and "kid \<notin> ids"
  shows "filter (\<lambda>x. key_id x = kid) keys' = filter (\<lambda>x. key_id x = kid) keys"
proof -
  from assms(1) have "list_all2 (\<lambda>x x'. if key_id x \<in> ids then exhausted x x' else x' = x) keys keys'"
    by (simp add: exhausted_only_def)
  then show ?thesis
  proof (induction rule: list_all2_induct)
    case Nil
    show ?case by simp
  next
    case (Cons x xs x' xs')
    show ?case
    proof (cases "key_id x \<in> ids")
      case True
      with Cons.hyps(1) have "key_id x' = key_id x" by (simp add: exhausted_fields)
      with True assms(2) Cons.IH show ?thesis by auto
    next
      case False
      with Cons.hyps(1) Cons.IH show ?thesis by simp
    qed
  qed
qed

text \<open>
  Claim C1. An authenticated request to a proxied path, of which the first \<open>j\<close> upstream
  attempts (\<open>j < 3\<close>) answer 402 and the next one answers \<open>r\<close> with another status and a
  body that can be read, with more than \<open>j\<close> selectable credentials in the pool: the
  client gets \<open>r\<close> relayed, never a 402: the status of \<open>r\<close>, the bytes of its body, and
  its headers without the hop-by-hop ones. Exactly \<open>j + 1\<close> upstream requests were
  issued, each with a different credential, and the pool was asked \<open>j + 1\<close> times: the
  \<open>n\<close>-th selection excluded exactly the ids of the \<open>n\<close> credentials selected before it.
  The \<open>j\<close> credentials that met a 402 are inactive with balance 0 and every other row of
  the pool is as it was; the log has gained \<open>j\<close> entries \<^verbatim>\<open>key_exhausted\<close>, one per
  exhausted credential in order, and then the entry \<^verbatim>\<open>ok\<close> or \<^verbatim>\<open>error_<code>\<close> of the
  last attempt.
\<close>

theorem proxy_handler_rotates_on_402:
  assumes path: "req_path req \<noteq> ''/health''" "req_path req \<noteq> ''/status''"
    and auth: "authenticate (store s) req = Inr tok"
    and j: "j < 3"
    and ex: "\<forall>i<j. \<forall>q. \<exists>r. upstream e i q = Responded r \<and> up_status r = 402"
    and fin: "\<forall>q. upstream e j q = Responded r" "up_status r \<noteq> 402" "\<not> up_read_raises r"
    and pool: "j < card (acceptable_ids (balance_threshold e) {} (store s))"
  shows "\<exists>resp ids kid s'. proxy_handler e req s = (resp, s')
          \<and> response_status resp = up_status r
          \<and> response_body resp = concat (up_chunks r)
          \<and> distinct (map fst (response_headers resp))
          \<and> map_of (response_headers resp) =
               map_of (rev (filter (\<lambda>kv. lower (fst kv) \<notin> HOP_BY_HOP) (up_headers r)))
          \<and> length ids = j \<and> distinct (ids @ [kid])
          \<and> set (ids @ [kid]) \<subseteq> acceptable_ids (balance_threshold e) {} (store s)
          \<and> asked s' = asked s @ map (\<lambda>n. set (take n ids)) [0..<j + 1]
          \<and> length (sent s') = length (sent s) + j + 1
          \<and> exhausted_only (set ids) (api_keys (store s)) (api_keys (store s'))
          \<and> request_log (store s') =
               request_log (store s)
               @ map (\<lambda>i. outcome_entry req tok ''key_exhausted'' (Some i)) ids
               @ [outcome_entry req tok (status_str (up_status r)) (Some kid)]
          \<and> frame_same s s'"
proof -
  from try_keys_reaches_attempt[OF j ex pool, of req tok] obtain ids k vi s1 where
    run: "try_keys e req tok [0..<3] {} s = try_keys e req tok (j # [Suc j..<3]) (set ids) s1"
    and sel: "get_active_key (store s1) (balance_threshold e) (set ids) = Some (k, vi)"
    and ids: "length ids = j" "distinct ids" "key_id k \<notin> set ids"
      "set ids \<subseteq> acceptable_ids (balance_threshold e) {} (store s)"
      "key_id k \<in> acceptable_ids (balance_threshold e) {} (store s)"
    and exh: "exhausted_only (set ids) (api_keys (store s)) (api_keys (store s1))"
    and log: "request_log (store s1) =
        request_log (store s) @ map (\<lambda>i. outcome_entry req tok ''key_exhausted'' (Some i)) ids"
    and snt: "length (sent s1) = length (sent s) + j"
    and ask: "asked s1 = asked s @ map (\<lambda>n. set (take n ids)) [0..<j]"
    and fr: "frame_same s s1"
    by blast
  from proxy_response_relays[OF fin(3)] obtain resp where
    relay: "proxy_response r = Some resp"
    and resp: "response_status resp = up_status r"
      "response_body resp = concat (up_chunks r)"
      "distinct (map fst (response_headers resp))"
      "map_of (response_headers resp) =
         map_of (rev (filter (\<lambda>kv. lower (fst kv) \<notin> HOP_BY_HOP) (up_headers r)))"
    by blast
  let ?q = "attempt_request req (xray_running s1) k vi"
  let ?s' = "log_outcome req tok (status_str (up_status r)) (Some (key_id k))
               (attempted (set ids) ?q s1)"
  from fin(1) have up: "upstream e j ?q = Responded r" by simp
  have c1: "proxy_handler e req s = (resp, ?s')"
    using proxy_handler_authenticated[OF path auth] run
      try_keys_relay[OF sel up fin(2) relay] by simp
  have c2: "distinct (ids @ [key_id k])"
    "set (ids @ [key_id k]) \<subseteq> acceptable_ids (balance_threshold e) {} (store s)"
    using ids by simp_all
  have c3: "length (sent ?s') = length (sent s) + j + 1"
    using snt by (simp add: logged_attempt)
  have c4: "exhausted_only (set ids) (api_keys (store s)) (api_keys (store ?s'))"
    using exh by (simp add: logged_attempt)
  have c5: "request_log (store ?s') =
       request_log (store s)
       @ map (\<lambda>i. outcome_entry req tok ''key_exhausted'' (Some i)) ids
       @ [outcome_entry req tok (status_str (up_status r)) (Some (key_id k))]"
    using log by (simp add: logged_attempt)
  have c6: "frame_same s ?s'"
    using fr logged_attempt(4) by (rule frame_same_trans)
  have "asked ?s' = asked s @ map (\<lambda>n. set (take n ids)) [0..<j] @ [set (take j ids)]"
    using ask ids(1) by (simp add: logged_attempt)
  then have c7: "asked ?s' = asked s @ map (\<lambda>n. set (take n ids)) [0..<j + 1]"
    by simp
  from c1 resp ids(1) c2 c7 c3 c4 c5 c6 show ?thesis by blast
qed

text \<open>
  Claim C4. An authenticated request whose upstream attempts answer 402 until no
  selectable credential is left outside the tried set, or until the three attempts are
  used up (\<open>j\<close> is the smaller of 3 and the number of selectable credentials): the handler
  answers 503, the log gains the \<open>j\<close> entries \<^verbatim>\<open>key_exhausted\<close> and then \<^verbatim>\<open>no_keys\<close> with no
  credential id, the credentials that met a 402 are the only rows changed, and \<open>j\<close>
  upstream requests were issued. Whatever the request, the store and the upstream, the
  handler issues at most three upstream requests.
\<close>

theorem proxy_handler_no_keys:
  assumes path: "req_path req \<noteq> ''/health''" "req_path req \<noteq> ''/status''"
    and auth: "authenticate (store s) req = Inr tok"
    and jmin: "j = min 3 (card (acceptable_ids (balance_threshold e) {} (store s)))"
    and ex: "\<forall>i<j. \<forall>q. \<exists>r. upstream e i q = Responded r \<and> up_status r = 402"
  shows "(\<exists>ids s'. proxy_handler e req s =
              (JsonResponse 503 (JObj [(''error'', JStr ''No active API keys available'')]), s')
          \<and> length ids = j \<and> distinct ids
          \<and> set ids \<subseteq> acceptable_ids (balance_threshold e) {} (store s)
          \<and> exhausted_only (set ids) (api_keys (store s)) (api_keys (store s'))
          \<and> request_log (store s') =
               request_log (store s)
               @ map (\<lambda>i. outcome_entry req tok ''key_exhausted'' (Some i)) ids
               @ [outcome_entry req tok ''no_keys'' None]
          \<and> length (sent s') = length (sent s) + j
          \<and> frame_same s s')
       \<and> (\<forall>e' req' s0. length (sent (snd (proxy_handler e' req' s0))) \<le> length (sent s0) + 3)"
proof
  from try_keys_min_no_keys[OF jmin ex, of req tok]
  show "\<exists>ids s'. proxy_handler e req s =
              (JsonResponse 503 (JObj [(''error'', JStr ''No active API keys available'')]), s')
          \<and> length ids = j \<and> distinct ids
          \<and> set ids \<subseteq> acceptable_ids (balance_threshold e) {} (store s)
          \<and> exhausted_only (set ids) (api_keys (store s)) (api_keys (store s'))
          \<and> request_log (store s') =
               request_log (store s)
               @ map (\<lambda>i. outcome_entry req tok ''key_exhausted'' (Some i)) ids
               @ [outcome_entry req tok ''no_keys'' None]
          \<and> length (sent s') = length (sent s) + j
          \<and> frame_same s s'"
    by (simp add: proxy_handler_authenticated[OF path auth] no_keys_response_def)
next
  show "\<forall>e' req' s0. length (sent (snd (proxy_handler e' req' s0))) \<le> length (sent s0) + 3"
  proof (intro allI)
    fix e' req' s0
    have "length (sent (snd (try_keys e' req' t [0..<3] {} s0))) \<le> length (sent s0) + 3" for t
      using try_keys_sent_bound[of e' req' t "[0..<3]" "{}" s0] by (simp del: upt_rec_numeral)
    moreover have "length (sent (snd (try_keys_without_token e' req' s0))) \<le> length (sent s0) + 3"
      using without_token_sent_bound[of e' req' s0] by simp
    ultimately show "length (sent (snd (proxy_handler e' req' s0))) \<le> length (sent s0) + 3"
      by (simp add: proxy_handler_def split: sum.splits)
  qed
qed

text \<open>
  Claim C6. An authenticated request of which the first \<open>j\<close> attempts answer 402 and the
  next one raises a transport exception: the handler answers 502 at once (\<open>j + 1\<close>
  upstream requests in all), the log ends with \<^verbatim>\<open>exception\<close> for the credential \<open>kid\<close> of
  the failed attempt, and the rows of that credential are exactly as they were, active
  flag and balance included.
\<close>

theorem proxy_handler_transport_error:
  assumes path: "req_path req \<noteq> ''/health''" "req_path req \<noteq> ''/status''"
    and auth: "authenticate (store s) req = Inr tok"
    and j: "j < 3"
    and ex: "\<forall>i<j. \<forall>q. \<exists>r. upstream e i q = Responded r \<and> up_status r = 402"
    and down: "\<forall>q. upstream e j q = TransportError"
    and pool: "j < card (acceptable_ids (balance_threshold e) {} (store s))"
  shows "\<exists>ids kid s'. proxy_handler e req s =
              (JsonResponse 502 (JObj [(''error'', JStr ''Upstream connection failed'')]), s')
          \<and> length ids = j \<and> kid \<notin> set ids
          \<and> kid \<in> acceptable_ids (balance_threshold e) {} (store s)
          \<and> length (sent s') = length (sent s) + j + 1
          \<and> filter (\<lambda>x. key_id x = kid) (api_keys (store s')) =
             filter (\<lambda>x. key_id x = kid) (api_keys (store s))
          \<and> exhausted_only (set ids) (api_keys (store s)) (api_keys (store s'))
          \<and> request_log (store s') =
               request_log (store s)
               @ map (\<lambda>i. outcome_entry req tok ''key_exhausted'' (Some i)) ids
               @ [outcome_entry req tok ''exception'' (Some kid)]
          \<and> frame_same s s'"
proof -
  from try_keys_reaches_attempt[OF j ex pool, of req tok] obtain ids k vi s1 where
    run: "try_keys e req tok [0..<3] {} s = try_keys e req tok (j # [Suc j..<3]) (set ids) s1"
    and sel: "get_active_key (store s1) (balance_threshold e) (set ids) = Some (k, vi)"
    and ids: "length ids = j" "key_id k \<notin> set ids"
      "key_id k \<in> acceptable_ids (balance_threshold e) {} (store s)"
    and exh: "exhausted_only (set ids) (api_keys (store s)) (api_keys (store s1))"
    and log: "request_log (store s1) =
        request_log (store s) @ map (\<lambda>i. outcome_entry req tok ''key_exhausted'' (Some i)) ids"
    and snt: "length (sent s1) = length (sent s) + j"
    and fr: "frame_same s s1"
    by blast
  let ?q = "attempt_request req (xray_running s1) k vi"
  let ?s' = "log_outcome req tok ''exception'' (Some (key_id k)) (attempted (set ids) ?q s1)"
  from down have up: "upstream e j ?q = TransportError" by simp
  have "proxy_handler e req s =
          (JsonResponse 502 (JObj [(''error'', JStr ''Upstream connection failed'')]), ?s')"
    using proxy_handler_authenticated[OF path auth] run try_keys_transport_error[OF sel up]
    by (simp add: upstream_failed_response_def)
  moreover have "length (sent ?s') = length (sent s) + j + 1"
    using snt by (simp add: logged_attempt)
  moreover have e': "exhausted_only (set ids) (api_keys (store s)) (api_keys (store ?s'))"
    using exh by (simp add: logged_attempt)
  moreover have "filter (\<lambda>x. key_id x = key_id k) (api_keys (store ?s')) =
             filter (\<lambda>x. key_id x = key_id k) (api_keys (store s))"
    using e' ids(2) by (rule exhausted_only_untouched)
  moreover have "request_log (store ?s') =
       request_log (store s)
       @ map (\<lambda>i. outcome_entry req tok ''key_exhausted'' (Some i)) ids
       @ [outcome_entry req tok ''exception'' (Some (key_id k))]"
    using log by (simp add: logged_attempt)
  moreover have "frame_same s ?s'"
    using fr logged_attempt(4) by (rule frame_same_trans)
  ultimately show ?thesis using ids by blast
qed


lemmas scenario_defs = three_keys_state_def three_keys_db_def models_request_def svc_token_def
  resp_402_def resp_200_def env_402_402_200_def env_all_402_def env_402_down_def mk_key_def

lemma models_request_path:
  "req_path models_request \<noteq> ''/health''" "req_path models_request \<noteq> ''/status''"
  by (simp_all add: models_request_def)

lemma models_request_authenticated:
  "authenticate (store three_keys_state) models_request = Inr svc_token"
  by (simp add: scenario_defs authenticate_def header_get_def lower_def lower_char_def
      startswith_def get_token_by_value_def)

lemma three_keys_acceptable:
  "acceptable_ids (1/10) {} (store three_keys_state) = {1, 2, 3}"
  by (simp add: scenario_defs acceptable_ids_def acceptable_def eligible_def)

lemma proxy_response_200:
  "proxy_response resp_200 =
     Some (BufferedResponse 200
             [(''Content-Type'', ''application/json''), (''X-Request-Id'', ''r-17'')]
             ''{models:[]}'')"
  by (simp add: resp_200_def proxy_response_def contains_def startswith_def header_get_def
      lower_def lower_char_def HOP_BY_HOP_def)

lemma range_3: "[0..<3] = [0, 1, 2]"
  by (simp add: numeral_3_eq_3 upt_rec)

lemmas handler_defs = range_3 proxy_handler_def authenticate_def header_get_def lower_def lower_char_def
  startswith_def get_token_by_value_def try_keys.simps no_keys_def log_outcome_def
  add_request_log_def update_key_balance_def deactivate_key_def attempt_request_def
  get_connector_def status_str_def pool_defs ask_def attempted_def

lemma rotation_example:
  "(case proxy_handler env_402_402_200 models_request three_keys_state of
      (resp, s') \<Rightarrow>
        resp = BufferedResponse 200
                 [(''Content-Type'', ''application/json''), (''X-Request-Id'', ''r-17'')] ''{models:[]}''
      \<and> map is_active (api_keys (store s')) = [False, False, True]
      \<and> map pollen_balance (api_keys (store s')) = [Some 0, Some 0, Some 1]
      \<and> map log_key_id (request_log (store s')) = [Some 1, Some 2, Some 3]
      \<and> asked s' = [{}, {1}, {1, 2}]
      \<and> map (\<lambda>q. map_of (up_request_headers q) ''Authorization'') (sent s')
          = [Some ''Bearer skA'', Some ''Bearer skB'', Some ''Bearer skC''])"
  by (simp add: handler_defs scenario_defs proxy_response_200[unfolded resp_200_def] Let_def
      forward_headers_def HOP_BY_HOP_def insert_commute)

text \<open>
  The rotation example of the specification: 402 for A, 402 for B, 200 for C gives three
  upstream attempts, with the keys of A, B and C in this order, the selections excluding
  nothing, then A, then A and B; A and B inactive with balance 0; the 200 of C with its
  body and its headers less \<^verbatim>\<open>Connection\<close>; and the log outcomes
  \<^verbatim>\<open>key_exhausted, key_exhausted, ok\<close>.
\<close>

theorem proxy_handler_rotates_on_402_witness:
  "\<exists>s'. proxy_handler env_402_402_200 models_request three_keys_state
           = (BufferedResponse 200
                [(''Content-Type'', ''application/json''), (''X-Request-Id'', ''r-17'')]
                ''{models:[]}'', s')
        \<and> length (sent s') = 3
        \<and> map (\<lambda>q. map_of (up_request_headers q) ''Authorization'') (sent s')
            = [Some ''Bearer skA'', Some ''Bearer skB'', Some ''Bearer skC'']
        \<and> asked s' = [{}, {1}, {1, 2}]
        \<and> map log_status (request_log (store s')) = [''key_exhausted'', ''key_exhausted'', ''ok'']
        \<and> map is_active (api_keys (store s')) = [False, False, True]
        \<and> map pollen_balance (api_keys (store s')) = [Some 0, Some 0, Some 1]"
proof -
  have h4: "(2::nat) < 3" by simp
  have h5: "\<forall>i<2. \<forall>q. \<exists>r. upstream env_402_402_200 i q = Responded r \<and> up_status r = 402"
    by (simp add: env_402_402_200_def resp_402_def)
  have h6: "\<forall>q. upstream env_402_402_200 2 q = Responded resp_200"
    by (simp add: env_402_402_200_def)
  have h7: "up_status resp_200 \<noteq> 402" "\<not> up_read_raises resp_200" by (simp_all add: resp_200_def)
  have h9: "2 < card (acceptable_ids (balance_threshold env_402_402_200) {} (store three_keys_state))"
    using three_keys_acceptable by (simp add: env_402_402_200_def)
  from proxy_handler_rotates_on_402[OF models_request_path models_request_authenticated
      h4 h5 h6 h7 h9]
  obtain resp ids kid s' where
    run: "proxy_handler env_402_402_200 models_request three_keys_state = (resp, s')"
    and body: "response_body resp = concat (up_chunks resp_200)"
    and len: "length ids = 2" "length (sent s') = length (sent three_keys_state) + 2 + 1"
    and log: "request_log (store s') =
               request_log (store three_keys_state)
               @ map (\<lambda>i. outcome_entry models_request svc_token ''key_exhausted'' (Some i)) ids
               @ [outcome_entry models_request svc_token (status_str (up_status resp_200)) (Some kid)]"
    by blast
  from len(1) obtain a b where ids: "ids = [a, b]"
    by (cases ids; cases "tl ids") auto
  from rotation_example run have
    resp: "resp = BufferedResponse 200
             [(''Content-Type'', ''application/json''), (''X-Request-Id'', ''r-17'')] ''{models:[]}''"
    and ev: "map is_active (api_keys (store s')) = [False, False, True]"
      "map pollen_balance (api_keys (store s')) = [Some 0, Some 0, Some 1]"
      "asked s' = [{}, {1}, {1, 2}]"
      "map (\<lambda>q. map_of (up_request_headers q) ''Authorization'') (sent s')
         = [Some ''Bearer skA'', Some ''Bearer skB'', Some ''Bearer skC'']"
    by simp_all
  have "length (sent s') = 3"
    using len(2) by (simp add: three_keys_state_def)
  moreover have "map log_status (request_log (store s')) = [''key_exhausted'', ''key_exhausted'', ''ok'']"
    using log ids
    by (simp add: outcome_entry_def status_str_def resp_200_def three_keys_state_def three_keys_db_def)
  ultimately show ?thesis using run resp ev by (intro exI[of _ s']) simp
qed


text \<open>
  Three credentials that all answer 402: three attempts, then 503 with \<^verbatim>\<open>no_keys\<close> logged.
\<close>

theorem proxy_handler_no_keys_witness:
  "\<exists>s'. proxy_handler env_all_402 models_request three_keys_state
           = (JsonResponse 503 (JObj [(''error'', JStr ''No active API keys available'')]), s')
        \<and> length (sent s') = 3
        \<and> map log_status (request_log (store s'))
            = [''key_exhausted'', ''key_exhausted'', ''key_exhausted'', ''no_keys'']
        \<and> length (sent (snd (proxy_handler env_all_402 models_request three_keys_state))) \<le> 3"
proof -
  have h4: "3 = min 3 (card (acceptable_ids (balance_threshold env_all_402) {} (store three_keys_state)))"
    using three_keys_acceptable by (simp add: env_all_402_def env_402_402_200_def)
  have h5: "\<forall>i<3. \<forall>q. \<exists>r. upstream env_all_402 i q = Responded r \<and> up_status r = 402"
    by (simp add: env_all_402_def resp_402_def)
  note main = proxy_handler_no_keys[OF models_request_path models_request_authenticated h4 h5]
  from main obtain ids s' where
    run: "proxy_handler env_all_402 models_request three_keys_state
           = (JsonResponse 503 (JObj [(''error'', JStr ''No active API keys available'')]), s')"
    and len: "length ids = 3" "length (sent s') = length (sent three_keys_state) + 3"
    and log: "request_log (store s') =
               request_log (store three_keys_state)
               @ map (\<lambda>i. outcome_entry models_request svc_token ''key_exhausted'' (Some i)) ids
               @ [outcome_entry models_request svc_token ''no_keys'' None]"
    by blast
  from len(1) obtain a b c where ids: "ids = [a, b, c]"
    by (cases ids; cases "tl ids"; cases "tl (tl ids)") auto
  have "length (sent s') = 3"
    using len(2) by (simp add: three_keys_state_def)
  moreover have "map log_status (request_log (store s'))
      = [''key_exhausted'', ''key_exhausted'', ''key_exhausted'', ''no_keys'']"
    using log ids by (simp add: outcome_entry_def three_keys_state_def three_keys_db_def)
  moreover have "length (sent (snd (proxy_handler env_all_402 models_request three_keys_state))) \<le> 3"
  proof -
    from main have "length (sent (snd (proxy_handler env_all_402 models_request three_keys_state)))
        \<le> length (sent three_keys_state) + 3"
      by blast
    then show ?thesis by (simp add: three_keys_state_def)
  qed
  ultimately show ?thesis using run by (intro exI[of _ s']) simp
qed

text \<open>
  A 402 for A, then no connection for B: 502, two upstream attempts, B still active with
  balance 2.
\<close>

theorem proxy_handler_transport_error_witness:
  "\<exists>s'. proxy_handler env_402_down models_request three_keys_state
           = (JsonResponse 502 (JObj [(''error'', JStr ''Upstream connection failed'')]), s')
        \<and> length (sent s') = 2
        \<and> map log_status (request_log (store s')) = [''key_exhausted'', ''exception'']
        \<and> map is_active (api_keys (store s')) = [False, True, True]
        \<and> map pollen_balance (api_keys (store s')) = [Some 0, Some 2, Some 1]"
proof -
  have h4: "(1::nat) < 3" by simp
  have h5: "\<forall>i<1. \<forall>q. \<exists>r. upstream env_402_down i q = Responded r \<and> up_status r = 402"
    by (simp add: env_402_down_def resp_402_def)
  have h6: "\<forall>q. upstream env_402_down 1 q = TransportError"
    by (simp add: env_402_down_def)
  have h7: "1 < card (acceptable_ids (balance_threshold env_402_down) {} (store three_keys_state))"
    using three_keys_acceptable by (simp add: env_402_down_def env_402_402_200_def)
  from proxy_handler_transport_error[OF models_request_path models_request_authenticated h4 h5 h6 h7]
  obtain ids kid s' where
    run: "proxy_handler env_402_down models_request three_keys_state
           = (JsonResponse 502 (JObj [(''error'', JStr ''Upstream connection failed'')]), s')"
    and len: "length ids = 1" "length (sent s') = length (sent three_keys_state) + 1 + 1"
    and log: "request_log (store s') =
               request_log (store three_keys_state)
               @ map (\<lambda>i. outcome_entry models_request svc_token ''key_exhausted'' (Some i)) ids
               @ [outcome_entry models_request svc_token ''exception'' (Some kid)]"
    by blast
  from len(1) obtain a where ids: "ids = [a]"
    by (cases ids) auto
  have ev: "(case proxy_handler env_402_down models_request three_keys_state of
               (resp, s') \<Rightarrow> map is_active (api_keys (store s')) = [False, True, True]
                 \<and> map pollen_balance (api_keys (store s')) = [Some 0, Some 2, Some 1])"
    by (simp add: handler_defs scenario_defs Let_def)
  have "length (sent s') = 2"
    using len(2) by (simp add: three_keys_state_def)
  moreover have "map log_status (request_log (store s')) = [''key_exhausted'', ''exception'']"
    using log ids by (simp add: outcome_entry_def three_keys_state_def three_keys_db_def)
  moreover have "map is_active (api_keys (store s')) = [False, True, True]"
    "map pollen_balance (api_keys (store s')) = [Some 0, Some 2, Some 1]"
    using ev run by simp_all
  ultimately show ?thesis using run by (intro exI[of _ s']) simp
qed

lemma authenticate_rejects:
  assumes "case header_get (req_headers req) ''Authorization'' of
             None \<Rightarrow> True
           | Some auth \<Rightarrow> \<not> startswith auth ''Bearer ''
               \<or> list_all (\<lambda>t. token t \<noteq> drop 7 auth \<or> \<not> token_is_active t) (service_tokens d)"
  shows "authenticate d req = Inl missing_header_response
         \<or> authenticate d req = Inl invalid_token_response"
proof (cases "header_get (req_headers req) ''Authorization''")
  case None
  then show ?thesis by (simp add: authenticate_def startswith_def)
next
  case (Some auth)
  show ?thesis
  proof (cases "startswith auth ''Bearer ''")
    case False
    with Some show ?thesis by (simp add: authenticate_def)
  next
    case True
    with Some assms have "list_all (\<lambda>t. token t \<noteq> drop 7 auth \<or> \<not> token_is_active t) (service_tokens d)"
      by simp
    then have "get_token_by_value d (drop 7 auth) = None"
      by (auto simp: get_token_by_value_def find_None_iff list_all_iff)
    with Some True show ?thesis by (simp add: authenticate_def)
  qed
qed

lemma authenticate_accepts:
  assumes "header_get (req_headers req) ''Authorization'' = Some auth"
    and "startswith auth ''Bearer ''"
    and "t \<in> set (service_tokens d)" "token t = drop 7 auth" "token_is_active t"
  shows "\<exists>tok. authenticate d req = Inr tok \<and> token tok = drop 7 auth \<and> token_is_active tok"
proof -
  from assms(3-5) have "get_token_by_value d (drop 7 auth) \<noteq> None"
    by (auto simp: get_token_by_value_def find_None_iff)
  then obtain tok where f: "get_token_by_value d (drop 7 auth) = Some tok" by auto
  then have "token tok = drop 7 auth \<and> token_is_active tok"
    by (auto simp: get_token_by_value_def find_Some_iff)
  with f assms(1,2) show ?thesis by (simp add: authenticate_def)
qed

text \<open>
  A failed authentication where the error response is truthy: the 401 with its JSON
  body, and the state as it was.
\<close>

lemma proxy_handler_rejects_when_truthy:
  assumes "req_path req \<noteq> ''/health''" "req_path req \<noteq> ''/status''"
    and "authenticate (store s) req = Inl err" and "response_truthy e"
  shows "proxy_handler e req s = (err, s)"
    and "\<exists>msg. err = JsonResponse 401 (JObj [(''error'', JStr msg)])"
proof -
  show "proxy_handler e req s = (err, s)"
    using assms by (simp add: proxy_handler_def)
  from assms(3) show "\<exists>msg. err = JsonResponse 401 (JObj [(''error'', JStr msg)])"
    by (auto simp: authenticate_def missing_header_response_def invalid_token_response_def
        split: option.splits if_splits)
qed

text \<open>
  Claim C5. On a path other than \<^verbatim>\<open>/health\<close> and \<^verbatim>\<open>/status\<close>, take a request with no
  Authorization header, with one that does not start with \<^verbatim>\<open>Bearer \<close>, or with a token
  that no active row of the token table holds. Where the 401 response that
  \<^verbatim>\<open>_authenticate\<close> made is truthy, the handler returns it, a JSON body \<^verbatim>\<open>{error: ...}\<close>,
  and the state is the one before the request: no upstream request issued, no credential
  selected or changed, nothing logged. Where it is falsy, \<^verbatim>\<open>if error:\<close> does not return:
  the client gets the 500 of an unhandled exception, not a 401; a credential was selected
  from the pool; and when the pool has a selectable credential, one upstream request was
  issued with the key of that credential.
\<close>

theorem proxy_handler_unauthenticated:
  assumes "req_path req \<noteq> ''/health''" "req_path req \<noteq> ''/status''"
    and "case header_get (req_headers req) ''Authorization'' of
             None \<Rightarrow> True
           | Some auth \<Rightarrow> \<not> startswith auth ''Bearer ''
               \<or> list_all (\<lambda>t. token t \<noteq> drop 7 auth \<or> \<not> token_is_active t)
                    (service_tokens (store s))"
  shows "(response_truthy e \<longrightarrow>
            (\<exists>msg. proxy_handler e req s = (JsonResponse 401 (JObj [(''error'', JStr msg)]), s)))
       \<and> (\<not> response_truthy e \<longrightarrow>
            fst (proxy_handler e req s) = Unhandled
          \<and> response_status (fst (proxy_handler e req s)) = 500
          \<and> asked (snd (proxy_handler e req s)) = asked s @ [{}]
          \<and> (\<forall>k vi. get_active_key (store s) (balance_threshold e) {} = Some (k, vi) \<longrightarrow>
                sent (snd (proxy_handler e req s))
                  = sent s @ [attempt_request req (xray_running s) k vi]
              \<and> map_of (up_request_headers (attempt_request req (xray_running s) k vi))
                   ''Authorization'' = Some (''Bearer '' @ key k)))"
proof -
  from authenticate_rejects[OF assms(3)] obtain err where
    err: "authenticate (store s) req = Inl err"
    by blast
  have t: "\<exists>msg. proxy_handler e req s = (JsonResponse 401 (JObj [(''error'', JStr msg)]), s)"
    if "response_truthy e"
    using proxy_handler_rejects_when_truthy[OF assms(1,2) err that] by auto
  have f: "proxy_handler e req s = try_keys_without_token e req s" if "\<not> response_truthy e"
    using that failed_authentication_cases(2)[OF assms(1,2) err] by simp
  have hdr: "map_of (up_request_headers (attempt_request req (xray_running s) k vi))
               ''Authorization'' = Some (''Bearer '' @ key k)" for k vi
    by (simp add: attempt_request_def forward_headers_def map_of_dict_set)
  show ?thesis
    using t f hdr
    by (auto simp: without_token_response without_token_asked without_token_sent)
qed

text \<open>
  A request without Authorization header against the three-credential pool, the
  upstream answering 402. Where the error response is falsy, the client gets a 500 and
  the upstream has received one request with the key of credential A; where it is
  truthy, the client gets the 401 and nothing has happened.
\<close>

lemma anonymous_request_rejected:
  "req_path anonymous_request \<noteq> ''/health''" "req_path anonymous_request \<noteq> ''/status''"
  "authenticate (store three_keys_state) anonymous_request = Inl missing_header_response"
  "case header_get (req_headers anonymous_request) ''Authorization'' of
             None \<Rightarrow> True
           | Some auth \<Rightarrow> \<not> startswith auth ''Bearer ''
               \<or> list_all (\<lambda>t. token t \<noteq> drop 7 auth \<or> \<not> token_is_active t)
                    (service_tokens (store three_keys_state))"
  by (simp_all add: anonymous_request_def models_request_def authenticate_def header_get_def
      lower_def lower_char_def startswith_def)

lemma three_keys_first:
  "get_active_key (store three_keys_state) (balance_threshold env_falsy_402) {}
     = Some (mk_key 1 ''skA'' 0 True (Some 3), None)"
  by (simp add: scenario_defs env_falsy_402_def pool_defs)

theorem proxy_handler_unauthenticated_witness:
  "\<not> response_truthy env_falsy_402
   \<and> fst (proxy_handler env_falsy_402 anonymous_request three_keys_state) = Unhandled
   \<and> response_status (fst (proxy_handler env_falsy_402 anonymous_request three_keys_state)) \<noteq> 401
   \<and> asked (snd (proxy_handler env_falsy_402 anonymous_request three_keys_state)) = [{}]
   \<and> map up_url (sent (snd (proxy_handler env_falsy_402 anonymous_request three_keys_state)))
       = [''https://gen.pollinations.ai/v1/models'']
   \<and> map (\<lambda>q. map_of (up_request_headers q) ''Authorization'')
        (sent (snd (proxy_handler env_falsy_402 anonymous_request three_keys_state)))
       = [Some ''Bearer skA'']
   \<and> (\<exists>msg. proxy_handler env_all_402 anonymous_request three_keys_state
              = (JsonResponse 401 (JObj [(''error'', JStr msg)]), three_keys_state))"
proof -
  have nt: "\<not> response_truthy env_falsy_402"
    by (simp add: env_falsy_402_def env_all_402_def env_402_402_200_def)
  have tr: "response_truthy env_all_402"
    by (simp add: env_all_402_def env_402_402_200_def)
  note falsy = proxy_handler_unauthenticated[OF anonymous_request_rejected(1,2,4), of env_falsy_402]
  note truthy = proxy_handler_unauthenticated[OF anonymous_request_rejected(1,2,4), of env_all_402]
  from falsy nt three_keys_first have
    f: "fst (proxy_handler env_falsy_402 anonymous_request three_keys_state) = Unhandled"
      "response_status (fst (proxy_handler env_falsy_402 anonymous_request three_keys_state)) = 500"
      "asked (snd (proxy_handler env_falsy_402 anonymous_request three_keys_state))
         = asked three_keys_state @ [{}]"
      "sent (snd (proxy_handler env_falsy_402 anonymous_request three_keys_state))
         = sent three_keys_state
           @ [attempt_request anonymous_request (xray_running three_keys_state)
                (mk_key 1 ''skA'' 0 True (Some 3)) None]"
      "map_of (up_request_headers (attempt_request anonymous_request (xray_running three_keys_state)
                (mk_key 1 ''skA'' 0 True (Some 3)) None)) ''Authorization''
         = Some (''Bearer '' @ key (mk_key 1 ''skA'' 0 True (Some 3)))"
    by blast+
  from truthy tr have
    t: "\<exists>msg. proxy_handler env_all_402 anonymous_request three_keys_state
              = (JsonResponse 401 (JObj [(''error'', JStr msg)]), three_keys_state)"
    by blast
  have url: "up_url (attempt_request anonymous_request (xray_running three_keys_state)
                (mk_key 1 ''skA'' 0 True (Some 3)) None) = ''https://gen.pollinations.ai/v1/models''"
    by (simp add: attempt_request_def anonymous_request_def models_request_def UPSTREAM_def)
  from nt f t url show ?thesis
    by (simp add: three_keys_state_def mk_key_def)
qed




section \<open>The parser and the configuration generator\<close>


lemmas parser_defs = parse_vless_url_def strip_def is_space_def startswith_def split1_def
  rsplit1_def py_int_def digit_val_def digits_value_def params_get_def

text \<open>
  \<^verbatim>\<open>unquote\<close> on a remark: an escaped space, an escape that is not UTF-8 (U+FFFD, bytes
  EF BF BD), the two bytes of U+00E9, a sequence cut short, a lead byte followed by an
  ASCII character, and a percent sign that starts no escape.
\<close>

lemma unquote_examples:
  "unquote ''my%20node'' = ''my node''"
  "map of_char (unquote ''%FF'') = [0xEF, 0xBF, 0xBD::nat]"
  "map of_char (unquote ''%C3%A9'') = [0xC3, 0xA9::nat]"
  "map of_char (unquote ''%E2%82'') = [0xEF, 0xBF, 0xBD::nat]"
  "map of_char (unquote ''%E2%28%A1'') = [0xEF, 0xBF, 0xBD, 0x28, 0xEF, 0xBF, 0xBD::nat]"
  "unquote ''100%'' = ''100%''"
  by (simp_all add: unquote_def hex_val_def is_continuation_byte_def REPLACEMENT_def
      char_of_def bit_iff_odd drop_bit_eq_div)

lemma parse_vless_url_default_port:
  "parse_vless_url ''vless://u@h'' =
     Inr (Some \<lparr>uuid = ''u'', host = ''h'', port = 443, cfg_remark = [], cfg_type = ''tcp'',
                security = ''none'', sni = [], fp = [], pbk = [], sid = [], path = [],
                host_header = [], serviceName = [], flow = [], alpn = [],
                encryption = ''none''\<rparr>)"
  by (simp add: parser_defs Let_def)

lemma parse_vless_url_no_at: "parse_vless_url ''vless://uh:1'' = Inr None"
  by (simp add: parser_defs Let_def)

lemma parse_vless_url_wrong_scheme: "parse_vless_url ''http://u@h:1'' = Inr None"
  by (simp add: parser_defs Let_def)

text \<open>
  Claim C3 says that the parser returns none on every malformed input and never lets an
  exception out. On a port that is not a number, and on a bracketed IPv6 host without a
  port, \<^verbatim>\<open>int(port_str)\<close> raises ValueError and nothing in \<^verbatim>\<open>parse_vless_url\<close> catches
  it. (The two other malformations are handled as the claim says, and a URL without a
  port gets 443: the three lemmas above.)
\<close>

theorem parse_vless_url_raises_on_bad_port:
  "parse_vless_url ''vless://u@h:abc'' = Inl ValueError
   \<and> parse_vless_url ''vless://u@[::1]'' = Inl ValueError"
  by (simp add: parser_defs Let_def)

lemmas generator_defs = generate_xray_config_def inbound_def outbound_def routing_rule_def
  build_stream_settings_def item_if_set_def get_active_vless_urls_def

text \<open>
  Claim C7 says that the port the proxy dials for a tunnel is the port the daemon
  listens on for it. The generator numbers the listeners by position in the list of
  active URLs, the proxy adds the stored config index. After the tunnel of config index 1
  is deleted, the tunnels of index 0 and 2 are left: the daemon listens on 10801 and
  10802, the tunnel to \<^verbatim>\<open>h2\<close> (row id 3) behind 10802, and for the credential bound to
  that tunnel the proxy dials 10803.
\<close>

theorem proxy_port_is_not_listener_port:
  "generate_xray_config (get_active_vless_urls gap_db) =
     Inr (JObj
       [(''log'', JObj [(''loglevel'', JStr ''warning'')]),
        (''inbounds'',
         JList [JObj [(''tag'', JStr ''socks-in-0''), (''port'', JInt 10801),
                      (''listen'', JStr ''127.0.0.1''), (''protocol'', JStr ''socks''),
                      (''settings'', JObj [(''udp'', JBool True)])],
                JObj [(''tag'', JStr ''socks-in-1''), (''port'', JInt 10802),
                      (''listen'', JStr ''127.0.0.1''), (''protocol'', JStr ''socks''),
                      (''settings'', JObj [(''udp'', JBool True)])]]),
        (''outbounds'',
         JList [JObj [(''tag'', JStr ''vless-0''), (''protocol'', JStr ''vless''),
                      (''settings'',
                       JObj [(''vnext'',
                              JList [JObj [(''address'', JStr ''h0''), (''port'', JInt 443),
                                           (''users'', JList [JObj [(''id'', JStr ''a''),
                                                                    (''encryption'', JStr ''none'')]])]])]),
                      (''streamSettings'',
                       JObj [(''network'', JStr ''tcp''), (''tcpSettings'', JObj []),
                             (''security'', JStr ''none'')])],
                JObj [(''tag'', JStr ''vless-1''), (''protocol'', JStr ''vless''),
                      (''settings'',
                       JObj [(''vnext'',
                              JList [JObj [(''address'', JStr ''h2''), (''port'', JInt 443),
                                           (''users'', JList [JObj [(''id'', JStr ''c''),
                                                                    (''encryption'', JStr ''none'')]])]])]),
                      (''streamSettings'',
                       JObj [(''network'', JStr ''tcp''), (''tcpSettings'', JObj []),
                             (''security'', JStr ''none'')])]]),
        (''routing'',
         JObj [(''rules'',
                JList [JObj [(''type'', JStr ''field''), (''inboundTag'', JList [JStr ''socks-in-0'']),
                             (''outboundTag'', JStr ''vless-0'')],
                       JObj [(''type'', JStr ''field''), (''inboundTag'', JList [JStr ''socks-in-1'']),
                             (''outboundTag'', JStr ''vless-1'')]])])])
   \<and> map_option (\<lambda>kv. (vless_id (fst kv), get_connector True (snd kv)))
        (get_active_key gap_db (1/10) {}) = Some (Some 3, Some 10803)"
  by (simp add: gap_db_def mk_key_def generator_defs parser_defs pool_defs get_connector_def Let_def
      enumerate_eq_zip upt_rec[of 0] upt_rec[of 1] upt_rec[of 2])

text \<open>
  A descriptor of transport \<^verbatim>\<open>kcp\<close>: the settings name the network \<^verbatim>\<open>kcp\<close>, not
  \<^verbatim>\<open>tcp\<close>, and hold no transport block.
\<close>

theorem build_stream_settings_unknown_transport_counterexample:
  "json_get ''network'' (build_stream_settings kcp_cfg) = Some (JStr ''kcp'')
   \<and> json_get ''network'' (build_stream_settings kcp_cfg) \<noteq> Some (JStr ''tcp'')
   \<and> json_keys (build_stream_settings kcp_cfg) = [''network'', ''security'']"
  by (simp add: kcp_cfg_def build_stream_settings_def)

text \<open>
  Claim C8, as the code has it. The transport kind is written to \<^verbatim>\<open>network\<close> as it
  stands; \<^verbatim>\<open>ws\<close> gets \<^verbatim>\<open>wsSettings\<close> with the path and the Host header, \<^verbatim>\<open>grpc\<close> gets
  \<^verbatim>\<open>grpcSettings\<close> with the service name, \<^verbatim>\<open>tcp\<close> gets an empty \<^verbatim>\<open>tcpSettings\<close>, and any
  other kind gets no transport block. A security kind other than \<^verbatim>\<open>tls\<close> and
  \<^verbatim>\<open>reality\<close> becomes \<^verbatim>\<open>none\<close>; \<^verbatim>\<open>tls\<close> gets serverName, fingerprint and alpn,
  \<^verbatim>\<open>reality\<close> gets serverName, fingerprint, publicKey and shortId. A parameter is
  written only when the descriptor's value is not empty. The function has no failing
  case. With both kinds unknown the settings are the network as given and security
  \<^verbatim>\<open>none\<close>.
\<close>

theorem build_stream_settings_parameter_sets:
  "json_get ''network'' (build_stream_settings cfg) = Some (JStr (cfg_type cfg))
   \<and> json_get ''security'' (build_stream_settings cfg) =
       Some (JStr (if security cfg = ''tls'' \<or> security cfg = ''reality'' then security cfg
                   else ''none''))
   \<and> json_get ''wsSettings'' (build_stream_settings cfg) =
       (if cfg_type cfg = ''ws''
        then Some (JObj (item_if_set ''path'' (path cfg)
                         @ (if host_header cfg \<noteq> []
                            then [(''headers'', JObj [(''Host'', JStr (host_header cfg))])]
                            else [])))
        else None)
   \<and> json_get ''grpcSettings'' (build_stream_settings cfg) =
       (if cfg_type cfg = ''grpc''
        then Some (JObj (item_if_set ''serviceName'' (serviceName cfg))) else None)
   \<and> json_get ''tcpSettings'' (build_stream_settings cfg) =
       (if cfg_type cfg = ''tcp'' then Some (JObj []) else None)
   \<and> json_get ''tlsSettings'' (build_stream_settings cfg) =
       (if security cfg = ''tls''
        then Some (JObj (item_if_set ''serverName'' (sni cfg)
                         @ item_if_set ''fingerprint'' (fp cfg)
                         @ (if alpn cfg \<noteq> []
                            then [(''alpn'', JList (map JStr (split_on CHR '','' (alpn cfg))))]
                            else [])))
        else None)
   \<and> json_get ''realitySettings'' (build_stream_settings cfg) =
       (if security cfg = ''reality''
        then Some (JObj (item_if_set ''serverName'' (sni cfg)
                         @ item_if_set ''fingerprint'' (fp cfg)
                         @ item_if_set ''publicKey'' (pbk cfg)
                         @ item_if_set ''shortId'' (sid cfg)))
        else None)
   \<and> (cfg_type cfg \<notin> {''ws'', ''grpc'', ''tcp''} \<and> security cfg \<notin> {''tls'', ''reality''}
        \<longrightarrow> build_stream_settings cfg =
              JObj [(''network'', JStr (cfg_type cfg)), (''security'', JStr ''none'')])"
  by (simp add: build_stream_settings_def)

text \<open>
  A websocket descriptor with TLS, and the descriptor of transport \<^verbatim>\<open>kcp\<close> and security
  \<^verbatim>\<open>xtls\<close>.
\<close>

theorem build_stream_settings_parameter_sets_witness:
  "json_get ''wsSettings'' (build_stream_settings ws_tls_cfg) =
     Some (JObj [(''path'', JStr ''/p''), (''headers'', JObj [(''Host'', JStr ''cdn.ex.com'')])])
   \<and> json_get ''tlsSettings'' (build_stream_settings ws_tls_cfg) =
     Some (JObj [(''serverName'', JStr ''ex.com''), (''alpn'', JList [JStr ''h2'', JStr ''http/1.1''])])
   \<and> build_stream_settings kcp_cfg = JObj [(''network'', JStr ''kcp''), (''security'', JStr ''none'')]"
  using build_stream_settings_parameter_sets[of ws_tls_cfg]
    build_stream_settings_parameter_sets[of kcp_cfg]
  by (simp add: ws_tls_cfg_def kcp_cfg_def item_if_set_def)

text \<open>
  For a list of URLs that all parse, the listener, the outbound and the rule of position
  \<open>i\<close> carry the tags of \<open>i\<close>, and the listener is bound to 127.0.0.1, port 10801 + \<open>i\<close>.
\<close>

lemma generate_xray_config_listeners:
  assumes "parse_all vless_urls = Inr configs" and "configs \<noteq> []"
  shows "\<exists>config. generate_xray_config vless_urls = Inr config
           \<and> json_get ''inbounds'' config = Some (JList (map inbound [0..<length configs]))
           \<and> json_get ''outbounds'' config =
               Some (JList (map (\<lambda>i. outbound i (configs ! i)) [0..<length configs]))
           \<and> json_get ''routing'' config =
               Some (JObj [(''rules'', JList (map routing_rule [0..<length configs]))])"
proof -
  have "map (\<lambda>(i, cfg). outbound i cfg) (enumerate 0 configs) =
        map (\<lambda>i. outbound i (configs ! i)) [0..<length configs]"
    by (rule nth_equalityI) (simp_all add: nth_enumerate_eq)
  with assms show ?thesis
    by (simp add: generate_xray_config_def)
qed

lemma inbound_port: "json_get ''port'' (inbound i) = Some (JInt (10801 + int i))"
  "json_get ''listen'' (inbound i) = Some (JStr ''127.0.0.1'')"
  by (simp_all add: inbound_def)

section \<open>One cycle of the reconciliation loop\<close>


lemma check_one_effect:
  "api_keys (store (check_one e r s)) = map (probe_update e (xray_running s) r) (api_keys (store s))"
  "xray_running (check_one e r s) = xray_running s"
  "xray_tunnel_count (check_one e r s) = xray_tunnel_count s"
  "vless_configs (store (check_one e r s)) = vless_configs (store s)"
  "service_tokens (store (check_one e r s)) = service_tokens (store s)"
  "request_log (store (check_one e r s)) = request_log (store s)"
  "sent (check_one e r s) =
     sent s @ snd (check_key_balance e (key (row_key r))
                     (socks_port_of (xray_running s) (row_vless_config_index r)))"
  by (auto simp: check_one_def probe_update_def Let_def update_key_balance_def deactivate_key_def
      split: option.splits)

lemma key_id_probe_update: "key_id (probe_update e run r x) = key_id x"
  by (simp add: probe_update_def Let_def)

lemma probe_update_other: "key_id x \<noteq> key_id (row_key r) \<Longrightarrow> probe_update e run r x = x"
  by (simp add: probe_update_def Let_def)

lemma fold_check_one:
  assumes "distinct (map (\<lambda>r. key_id (row_key r)) rs)"
  shows "api_keys (store (fold (check_one e) rs s)) =
           map (\<lambda>x. case find (\<lambda>r. key_id (row_key r) = key_id x) rs of
                       None \<Rightarrow> x
                     | Some r \<Rightarrow> probe_update e (xray_running s) r x)
             (api_keys (store s))
         \<and> xray_running (fold (check_one e) rs s) = xray_running s
         \<and> xray_tunnel_count (fold (check_one e) rs s) = xray_tunnel_count s
         \<and> vless_configs (store (fold (check_one e) rs s)) = vless_configs (store s)
         \<and> service_tokens (store (fold (check_one e) rs s)) = service_tokens (store s)
         \<and> request_log (store (fold (check_one e) rs s)) = request_log (store s)
         \<and> sent (fold (check_one e) rs s) =
             sent s @ concat (map (\<lambda>r. snd (check_key_balance e (key (row_key r))
                                 (socks_port_of (xray_running s) (row_vless_config_index r)))) rs)"
  using assms
proof (induction rs arbitrary: s)
  case Nil
  show ?case by (simp add: map_idI)
next
  case (Cons r rs)
  let ?s1 = "check_one e r s"
  from Cons.prems have d: "distinct (map (\<lambda>r. key_id (row_key r)) rs)"
    and fresh: "\<forall>r'\<in>set rs. key_id (row_key r') \<noteq> key_id (row_key r)"
    by (force simp: image_iff)+
  note IH = Cons.IH[OF d, of ?s1]
  have pt: "(case find (\<lambda>r'. key_id (row_key r') = key_id (probe_update e (xray_running s) r x)) rs of
               None \<Rightarrow> probe_update e (xray_running s) r x
             | Some r' \<Rightarrow> probe_update e (xray_running s) r' (probe_update e (xray_running s) r x))
          = (case find (\<lambda>r'. key_id (row_key r') = key_id x) (r # rs) of
               None \<Rightarrow> x
             | Some r' \<Rightarrow> probe_update e (xray_running s) r' x)" for x
  proof (cases "key_id x = key_id (row_key r)")
    case True
    with fresh have "find (\<lambda>r'. key_id (row_key r') = key_id x) rs = None"
      by (auto simp: find_None_iff)
    with True show ?thesis by (simp add: key_id_probe_update)
  next
    case False
    then have "probe_update e (xray_running s) r x = x" by (rule probe_update_other)
    with False show ?thesis by (simp split: option.splits)
  qed
  have run1: "xray_running ?s1 = xray_running s" by (simp add: check_one_effect)
  from IH have "api_keys (store (fold (check_one e) rs ?s1)) =
      map (\<lambda>x. case find (\<lambda>r'. key_id (row_key r') = key_id x) rs of
                  None \<Rightarrow> x
                | Some r' \<Rightarrow> probe_update e (xray_running ?s1) r' x)
        (api_keys (store ?s1))"
    by blast
  then have "api_keys (store (fold (check_one e) rs ?s1)) =
      map (\<lambda>x. case find (\<lambda>r'. key_id (row_key r') = key_id x) rs of
                  None \<Rightarrow> x
                | Some r' \<Rightarrow> probe_update e (xray_running s) r' x)
        (map (probe_update e (xray_running s) r) (api_keys (store s)))"
    unfolding run1 check_one_effect(1) .
  also have "\<dots> =
      map (\<lambda>x. case find (\<lambda>r'. key_id (row_key r') = key_id (probe_update e (xray_running s) r x)) rs of
               None \<Rightarrow> probe_update e (xray_running s) r x
             | Some r' \<Rightarrow> probe_update e (xray_running s) r' (probe_update e (xray_running s) r x))
        (api_keys (store s))"
    by (simp only: map_map comp_def)
  also have "\<dots> =
      map (\<lambda>x. case find (\<lambda>r'. key_id (row_key r') = key_id x) (r # rs) of
                  None \<Rightarrow> x
                | Some r' \<Rightarrow> probe_update e (xray_running s) r' x)
        (api_keys (store s))"
    by (rule map_cong[OF refl]) (rule pt)
  finally have "api_keys (store (fold (check_one e) (r # rs) s)) =
      map (\<lambda>x. case find (\<lambda>r'. key_id (row_key r') = key_id x) (r # rs) of
                  None \<Rightarrow> x
                | Some r' \<Rightarrow> probe_update e (xray_running s) r' x)
        (api_keys (store s))"
    by simp
  moreover have "sent (fold (check_one e) (r # rs) s) =
       sent s @ concat (map (\<lambda>r. snd (check_key_balance e (key (row_key r))
                           (socks_port_of (xray_running s) (row_vless_config_index r)))) (r # rs))"
    using IH by (simp add: check_one_effect)
  ultimately show ?case using IH by (simp add: check_one_effect)
qed

lemma restart_xray_store:
  "store (snd (restart_xray ok urls s)) = store s"
  "sent (snd (restart_xray ok urls s)) = sent s"
  by (simp_all add: restart_xray_def split: sum.splits)

lemma find_own_row:
  assumes "distinct (map key_id ks)" and "x \<in> set ks"
  shows "find (\<lambda>y. key_id y = key_id x) ks = Some x"
  using assms
proof (induction ks)
  case Nil
  then show ?case by simp
next
  case (Cons k ks)
  show ?case
  proof (cases "k = x")
    case True
    then show ?thesis by simp
  next
    case False
    with Cons.prems have "x \<in> set ks" and "key_id k \<noteq> key_id x"
      by (auto simp: image_iff)
    with Cons show ?thesis by simp
  qed
qed

lemma find_map: "find P (map f xs) = map_option f (find (P \<circ> f) xs)"
  by (induction xs) auto

lemma row_index_join:
  "map_option config_index (bound_vless d k) = vless_config_index_of d k"
  by (simp add: bound_vless_def vless_config_index_of_def split: option.splits)

text \<open>The probe of the code is the probe of the specification.\<close>

lemma check_key_balance_probe:
  "res_balance (fst (check_key_balance e api_key socks_port)) = probed_balance e api_key socks_port"
  "res_next_reset_at (fst (check_key_balance e api_key socks_port)) = probed_reset e api_key socks_port"
  "snd (check_key_balance e api_key socks_port) =
     (if balance_api e api_key socks_port = Raised
      then [probe_request BALANCE_URL api_key socks_port]
      else [probe_request BALANCE_URL api_key socks_port, probe_request PROFILE_URL api_key socks_port])"
  by (simp_all add: check_key_balance_def probed_balance_def probed_reset_def Let_def
      split: reply.splits)

lemma probe_port_eq:
  "socks_port_of run (vless_config_index_of d k) = probe_port run d k"
  by (simp add: socks_port_of_def probe_port_def)

text \<open>
  Claim C9, as the code has it. The cycle reads every credential with
  \<^verbatim>\<open>get_all_keys\<close>, which does not filter on the active flag. For a table with distinct
  ids, the cycle turns every row, active or not, into its probed row, and the requests
  it issues are the probes of the rows in ascending index order. For every row, with
  the port of its tunnel resolved only if the daemon is running: when the balance call
  raises, the probe is the balance request alone, the profile request is not issued,
  and the balance and the reset time become unknown; otherwise the probe is the balance
  request, then the profile request, the balance becomes the one a 200 of the balance
  call reports and unknown for another status, and the reset time becomes the one a 200
  of the profile call reports and unknown otherwise. The check time is set; the row is active afterwards
  exactly when it was active and the probed balance is unknown or not below the
  threshold, so no row is reactivated. Nothing is logged.
\<close>

theorem balance_check_cycle_probes_every_key:
  assumes "distinct (map key_id (api_keys (store s)))"
  shows "api_keys (store (balance_check_cycle e s)) =
           map (probed_row e (xray_running s) (store s)) (api_keys (store s))
         \<and> sent (balance_check_cycle e s) =
             sent s @ concat (map (probes_of e (xray_running s) (store s))
                                (sort_key key_index (api_keys (store s))))
         \<and> (\<forall>k port.
              port = (case vless_config_index_of (store s) k of
                        None \<Rightarrow> None
                      | Some idx \<Rightarrow> if xray_running s then Some (10801 + idx) else None) \<longrightarrow>
                (balance_api e (key k) port = Raised \<longrightarrow>
                   probes_of e (xray_running s) (store s) k = [probe_request BALANCE_URL (key k) port]
                 \<and> pollen_balance (probed_row e (xray_running s) (store s) k) = None
                 \<and> next_reset_at (probed_row e (xray_running s) (store s) k) = None)
              \<and> (balance_api e (key k) port \<noteq> Raised \<longrightarrow>
                   probes_of e (xray_running s) (store s) k =
                     [probe_request BALANCE_URL (key k) port, probe_request PROFILE_URL (key k) port])
              \<and> (\<forall>st body. balance_api e (key k) port = Replied st body \<longrightarrow>
                   pollen_balance (probed_row e (xray_running s) (store s) k) =
                     (if st = 200 then (case body of None \<Rightarrow> Some 0 | Some v \<Rightarrow> v) else None)
                 \<and> next_reset_at (probed_row e (xray_running s) (store s) k) =
                     (case profile_api e (key k) port of
                        Raised \<Rightarrow> None
                      | Replied st2 profile \<Rightarrow>
                          if st2 = 200 then (case snd profile of None \<Rightarrow> Some [] | Some v \<Rightarrow> v)
                          else None))
              \<and> balance_checked_at (probed_row e (xray_running s) (store s) k)
                  = Some (checked_at e (key_id k))
              \<and> is_active (probed_row e (xray_running s) (store s) k) =
                  (is_active k
                   \<and> (\<forall>b. pollen_balance (probed_row e (xray_running s) (store s) k) = Some b
                          \<longrightarrow> \<not> b < threshold e)))
         \<and> request_log (store (balance_check_cycle e s)) = request_log (store s)"
proof -
  let ?d = "store s" and ?run = "xray_running s"
  let ?ks = "sort_key key_index (api_keys ?d)"
  let ?join = "\<lambda>k. \<lparr>row_key = k,
               row_vless_remark = (case bound_vless ?d k of None \<Rightarrow> None | Some c \<Rightarrow> remark c),
               row_vless_config_index = map_option config_index (bound_vless ?d k)\<rparr>"
  let ?rows = "get_all_keys ?d"
  have rows: "?rows = map ?join ?ks" by (simp add: get_all_keys_def)
  have dk: "distinct (map key_id ?ks)"
    using assms by (simp add: distinct_map)
  have dr: "distinct (map (\<lambda>r. key_id (row_key r)) ?rows)"
    using dk by (simp add: rows comp_def)
  let ?s1 = "fold (check_one e) ?rows s"
  note F = fold_check_one[OF dr, of e s]
  have own: "(case find (\<lambda>r. key_id (row_key r) = key_id x) ?rows of
               None \<Rightarrow> x
             | Some r \<Rightarrow> probe_update e ?run r x) = probed_row e ?run ?d x"
    if "x \<in> set (api_keys ?d)" for x
  proof -
    from that have "x \<in> set ?ks" by simp
    with dk have "find (\<lambda>y. key_id y = key_id x) ?ks = Some x" by (rule find_own_row)
    then have "find (\<lambda>r. key_id (row_key r) = key_id x) ?rows = Some (?join x)"
      by (simp add: rows find_map comp_def)
    then show ?thesis
      by (cases "is_active x")
        (auto simp: probe_update_def probed_row_def Let_def row_index_join check_key_balance_probe
           probe_port_eq split: option.splits)
  qed
  from F have Fk: "api_keys (store ?s1) =
           map (\<lambda>x. case find (\<lambda>r. key_id (row_key r) = key_id x) ?rows of
                       None \<Rightarrow> x
                     | Some r \<Rightarrow> probe_update e ?run r x)
             (api_keys ?d)"
    and Fs: "sent ?s1 =
             sent s @ concat (map (\<lambda>r. snd (check_key_balance e (key (row_key r))
                                 (socks_port_of ?run (row_vless_config_index r)))) ?rows)"
    and log1: "request_log (store ?s1) = request_log ?d"
    by blast+
  have "map (\<lambda>x. case find (\<lambda>r. key_id (row_key r) = key_id x) ?rows of
                       None \<Rightarrow> x
                     | Some r \<Rightarrow> probe_update e ?run r x) (api_keys ?d)
        = map (probed_row e ?run ?d) (api_keys ?d)"
    by (rule map_cong[OF refl]) (rule own)
  with Fk have keys1: "api_keys (store ?s1) = map (probed_row e ?run ?d) (api_keys ?d)"
    by simp
  have "map (\<lambda>r. snd (check_key_balance e (key (row_key r))
                                 (socks_port_of ?run (row_vless_config_index r)))) ?rows
        = map (probes_of e ?run ?d) ?ks"
    unfolding rows
    by (simp add: comp_def probes_of_def row_index_join check_key_balance_probe probe_port_eq)
  with Fs have sent1: "sent ?s1 = sent s @ concat (map (probes_of e ?run ?d) ?ks)"
    by simp
  have cyc: "balance_check_cycle e s = s \<and> api_keys ?d = []
      \<or> store (balance_check_cycle e s) = store ?s1 \<and> sent (balance_check_cycle e s) = sent ?s1"
  proof (cases "?rows = []")
    case True
    then have "?ks = []" by (simp add: rows)
    then have "length (api_keys ?d) = 0"
      using length_sort[of key_index "api_keys ?d"] by simp
    then have "api_keys ?d = []" by simp
    with True show ?thesis by (simp add: balance_check_cycle_def)
  next
    case False
    then show ?thesis
      by (simp add: balance_check_cycle_def Let_def restart_xray_store)
  qed
  have c1: "api_keys (store (balance_check_cycle e s)) = map (probed_row e ?run ?d) (api_keys ?d)"
    using cyc keys1 by auto
  have c2: "sent (balance_check_cycle e s) = sent s @ concat (map (probes_of e ?run ?d) ?ks)"
    using cyc sent1 by auto
  have c4: "request_log (store (balance_check_cycle e s)) = request_log ?d"
    using cyc log1 by auto
  have c3: "\<forall>k port.
              port = (case vless_config_index_of ?d k of
                        None \<Rightarrow> None
                      | Some idx \<Rightarrow> if ?run then Some (10801 + idx) else None) \<longrightarrow>
                (balance_api e (key k) port = Raised \<longrightarrow>
                   probes_of e ?run ?d k = [probe_request BALANCE_URL (key k) port]
                 \<and> pollen_balance (probed_row e ?run ?d k) = None
                 \<and> next_reset_at (probed_row e ?run ?d k) = None)
              \<and> (balance_api e (key k) port \<noteq> Raised \<longrightarrow>
                   probes_of e ?run ?d k =
                     [probe_request BALANCE_URL (key k) port, probe_request PROFILE_URL (key k) port])
              \<and> (\<forall>st body. balance_api e (key k) port = Replied st body \<longrightarrow>
                   pollen_balance (probed_row e ?run ?d k) =
                     (if st = 200 then (case body of None \<Rightarrow> Some 0 | Some v \<Rightarrow> v) else None)
                 \<and> next_reset_at (probed_row e ?run ?d k) =
                     (case profile_api e (key k) port of
                        Raised \<Rightarrow> None
                      | Replied st2 profile \<Rightarrow>
                          if st2 = 200 then (case snd profile of None \<Rightarrow> Some [] | Some v \<Rightarrow> v)
                          else None))
              \<and> balance_checked_at (probed_row e ?run ?d k) = Some (checked_at e (key_id k))
              \<and> is_active (probed_row e ?run ?d k) =
                  (is_active k
                   \<and> (\<forall>b. pollen_balance (probed_row e ?run ?d k) = Some b \<longrightarrow> \<not> b < threshold e))"
  proof (intro allI impI)
    fix k port
    assume "port = (case vless_config_index_of ?d k of
                        None \<Rightarrow> None
                      | Some idx \<Rightarrow> if ?run then Some (10801 + idx) else None)"
    then have port: "probe_port ?run ?d k = port" by (simp add: probe_port_def)
    show "(balance_api e (key k) port = Raised \<longrightarrow>
                   probes_of e ?run ?d k = [probe_request BALANCE_URL (key k) port]
                 \<and> pollen_balance (probed_row e ?run ?d k) = None
                 \<and> next_reset_at (probed_row e ?run ?d k) = None)
              \<and> (balance_api e (key k) port \<noteq> Raised \<longrightarrow>
                   probes_of e ?run ?d k =
                     [probe_request BALANCE_URL (key k) port, probe_request PROFILE_URL (key k) port])
              \<and> (\<forall>st body. balance_api e (key k) port = Replied st body \<longrightarrow>
                   pollen_balance (probed_row e ?run ?d k) =
                     (if st = 200 then (case body of None \<Rightarrow> Some 0 | Some v \<Rightarrow> v) else None)
                 \<and> next_reset_at (probed_row e ?run ?d k) =
                     (case profile_api e (key k) port of
                        Raised \<Rightarrow> None
                      | Replied st2 profile \<Rightarrow>
                          if st2 = 200 then (case snd profile of None \<Rightarrow> Some [] | Some v \<Rightarrow> v)
                          else None))
              \<and> balance_checked_at (probed_row e ?run ?d k) = Some (checked_at e (key_id k))
              \<and> is_active (probed_row e ?run ?d k) =
                  (is_active k
                   \<and> (\<forall>b. pollen_balance (probed_row e ?run ?d k) = Some b \<longrightarrow> \<not> b < threshold e))"
      by (auto simp: probes_of_def probed_row_def probed_balance_def probed_reset_def port
          split: option.splits)
  qed
  show ?thesis by (rule conjI[OF c1 conjI[OF c2 conjI[OF c3 c4]]])
qed


lemmas loop_defs = balance_check_cycle_def get_all_keys_def bound_vless_def check_one_def
  check_key_balance_def probe_request_def socks_port_of_def update_key_balance_def
  deactivate_key_def get_active_vless_urls_def selection_state_def selection_db_def
  mk_db_def mk_key_def probe_5_def

text \<open>
  The pool of the selection example, whose credential 3 is inactive with balance 9, and
  an upstream that reports balance 5: after one cycle the balance of credential 3 is 5
  and its check time is set, and six probe requests were issued, two per credential,
  the last two with the key of credential 3.
\<close>

theorem balance_check_cycle_probes_inactive_counterexample:
  "map is_active (api_keys (store selection_state)) = [True, True, False]
   \<and> map pollen_balance (api_keys (store selection_state)) = [Some (1/2), Some (1/20), Some 9]
   \<and> map pollen_balance (api_keys (store (balance_check_cycle probe_5 selection_state)))
       = [Some 5, Some 5, Some 5]
   \<and> map balance_checked_at (api_keys (store (balance_check_cycle probe_5 selection_state)))
       = [Some ''2025-01-01 00:00:10'', Some ''2025-01-01 00:00:10'', Some ''2025-01-01 00:00:10'']
   \<and> length (sent (balance_check_cycle probe_5 selection_state)) = 6
   \<and> map (\<lambda>q. map_of (up_request_headers q) ''Authorization'')
        (drop 4 (sent (balance_check_cycle probe_5 selection_state)))
       = [Some ''Bearer sk3'', Some ''Bearer sk3'']"
  by (simp add: loop_defs Let_def)

text \<open>
  The same pool, with the balance call raising for credential 2 and reporting 5 for the
  others: five requests, balance and profile for credentials 1 and 3 and the balance
  request alone for credential 2, whose balance and reset time become unknown. No row
  changes its active flag: 5 is not below the threshold 0.1, and credential 3 stays
  inactive.
\<close>

theorem balance_check_cycle_probes_every_key_witness:
  "distinct (map key_id (api_keys (store selection_state)))
   \<and> map up_url (sent (balance_check_cycle probe_5_down_2 selection_state))
       = [BALANCE_URL, PROFILE_URL, BALANCE_URL, BALANCE_URL, PROFILE_URL]
   \<and> map (\<lambda>q. map_of (up_request_headers q) ''Authorization'')
        (sent (balance_check_cycle probe_5_down_2 selection_state))
       = [Some ''Bearer sk1'', Some ''Bearer sk1'', Some ''Bearer sk2'', Some ''Bearer sk3'',
          Some ''Bearer sk3'']
   \<and> map pollen_balance (api_keys (store (balance_check_cycle probe_5_down_2 selection_state)))
       = [Some 5, None, Some 5]
   \<and> map next_reset_at (api_keys (store (balance_check_cycle probe_5_down_2 selection_state)))
       = [Some ''2025-02-01'', None, Some ''2025-02-01'']
   \<and> map balance_checked_at (api_keys (store (balance_check_cycle probe_5_down_2 selection_state)))
       = [Some ''2025-01-01 00:00:10'', Some ''2025-01-01 00:00:10'', Some ''2025-01-01 00:00:10'']
   \<and> map is_active (api_keys (store (balance_check_cycle probe_5_down_2 selection_state)))
       = [True, True, False]"
proof -
  have d: "distinct (map key_id (api_keys (store selection_state)))"
    by (simp add: selection_state_def selection_db_def mk_db_def mk_key_def)
  have srt: "sort_key key_index (api_keys (store selection_state)) = api_keys (store selection_state)"
    by (simp add: selection_state_def selection_db_def mk_db_def mk_key_def)
  from balance_check_cycle_probes_every_key[OF d, of probe_5_down_2]
  have k: "api_keys (store (balance_check_cycle probe_5_down_2 selection_state)) =
        map (probed_row probe_5_down_2 (xray_running selection_state) (store selection_state))
          (api_keys (store selection_state))"
    and p: "sent (balance_check_cycle probe_5_down_2 selection_state) =
        sent selection_state
        @ concat (map (probes_of probe_5_down_2 (xray_running selection_state) (store selection_state))
                    (sort_key key_index (api_keys (store selection_state))))"
    by blast+
  from d show ?thesis
    unfolding k p srt
    by (simp add: probed_row_def probes_of_def probed_balance_def probed_reset_def probe_port_def
        probe_request_def vless_config_index_of_def selection_state_def selection_db_def
        mk_db_def mk_key_def probe_5_down_2_def probe_5_def)
qed
section \<open>Header forwarding and listener positions\<close>


declare str_nat.simps [simp del]

text \<open>
  Header filtering. The headers of an upstream request hold each name once; they
  are the client's header names that are neither hop-by-hop nor, in any case of
  letters, \<^verbatim>\<open>authorization\<close>, and the name \<^verbatim>\<open>Authorization\<close>, whose value is the bearer
  value of the selected credential.
\<close>

theorem forward_headers_filtered:
  "map_of (forward_headers request_headers api_key) ''Authorization'' = Some (''Bearer '' @ api_key)
   \<and> distinct (map fst (forward_headers request_headers api_key))
   \<and> fst ` set (forward_headers request_headers api_key) =
       insert ''Authorization''
         {k \<in> fst ` set request_headers. lower k \<notin> HOP_BY_HOP \<and> lower k \<noteq> ''authorization''}"
proof -
  let ?P = "\<lambda>k. lower k \<notin> HOP_BY_HOP \<and> lower k \<noteq> ''authorization''"
  let ?kept = "fold (\<lambda>kv hs. if ?P (fst kv) then dict_set (fst kv) (snd kv) hs else hs)
                 request_headers []"
  have fh: "forward_headers request_headers api_key =
            dict_set ''Authorization'' (''Bearer '' @ api_key) ?kept"
    by (simp add: forward_headers_def)
  have "distinct (map fst ?kept)"
    by (rule fold_headers_distinct) simp
  then have "distinct (map fst (forward_headers request_headers api_key))"
    unfolding fh by (rule distinct_dict_set)
  moreover have "fst ` set ?kept = {k \<in> fst ` set request_headers. ?P k}"
    using fold_headers_keys[of ?P request_headers "[]"] by simp
  then have "fst ` set (forward_headers request_headers api_key) =
       insert ''Authorization'' {k \<in> fst ` set request_headers. ?P k}"
    unfolding fh by (simp add: keys_dict_set)
  moreover have "map_of (forward_headers request_headers api_key) ''Authorization''
       = Some (''Bearer '' @ api_key)"
    unfolding fh by (simp add: map_of_dict_set)
  ultimately show ?thesis by blast
qed

text \<open>
  A client request with Host, a lower-case authorization, Accept and Connection.
\<close>

theorem forward_headers_filtered_witness:
  "forward_headers [(''Host'', ''gw.example''), (''authorization'', ''Bearer tok''),
                    (''Accept'', ''*/*''), (''Connection'', ''keep-alive'')] ''skA''
     = [(''Accept'', ''*/*''), (''Authorization'', ''Bearer skA'')]
   \<and> map_of (forward_headers [(''Host'', ''gw.example''), (''authorization'', ''Bearer tok''),
                    (''Accept'', ''*/*''), (''Connection'', ''keep-alive'')] ''skA'') ''Authorization''
     = Some ''Bearer skA''"
proof -
  have "forward_headers [(''Host'', ''gw.example''), (''authorization'', ''Bearer tok''),
                    (''Accept'', ''*/*''), (''Connection'', ''keep-alive'')] ''skA''
     = [(''Accept'', ''*/*''), (''Authorization'', ''Bearer skA'')]"
    by (simp add: forward_headers_def lower_def lower_char_def HOP_BY_HOP_def)
  moreover from forward_headers_filtered[of "[(''Host'', ''gw.example''), (''authorization'', ''Bearer tok''),
                    (''Accept'', ''*/*''), (''Connection'', ''keep-alive'')]" "''skA''"]
  have "map_of (forward_headers [(''Host'', ''gw.example''), (''authorization'', ''Bearer tok''),
                    (''Accept'', ''*/*''), (''Connection'', ''keep-alive'')] ''skA'') ''Authorization''
     = Some (''Bearer '' @ ''skA'')"
    by blast
  ultimately show ?thesis by simp
qed

text \<open>
  Listener positions. For URLs that all parse to a list of descriptors that is not
  empty, the configuration has one listener, one outbound and one rule per descriptor,
  in order; the listener of position \<open>i\<close> is bound to 127.0.0.1, port 10801 + \<open>i\<close>, and the
  rule of position \<open>i\<close> leads from the listener of \<open>i\<close> to the outbound of \<open>i\<close>, which goes
  to descriptor \<open>i\<close>.
\<close>

theorem generate_xray_config_positions:
  assumes "parse_all vless_urls = Inr configs" and "configs \<noteq> []"
  shows "\<exists>config. generate_xray_config vless_urls = Inr config
           \<and> json_get ''inbounds'' config = Some (JList (map inbound [0..<length configs]))
           \<and> json_get ''outbounds'' config =
               Some (JList (map (\<lambda>i. outbound i (configs ! i)) [0..<length configs]))
           \<and> json_get ''routing'' config =
               Some (JObj [(''rules'', JList (map routing_rule [0..<length configs]))])
           \<and> (\<forall>i. json_get ''port'' (inbound i) = Some (JInt (10801 + int i))
                  \<and> json_get ''listen'' (inbound i) = Some (JStr ''127.0.0.1'')
                  \<and> json_get ''tag'' (inbound i) = Some (JStr (''socks-in-'' @ str_nat i))
                  \<and> json_get ''inboundTag'' (routing_rule i) = Some (JList [JStr (''socks-in-'' @ str_nat i)])
                  \<and> json_get ''outboundTag'' (routing_rule i) = Some (JStr (''vless-'' @ str_nat i))
                  \<and> (\<forall>cfg. json_get ''tag'' (outbound i cfg) = Some (JStr (''vless-'' @ str_nat i))))"
  using generate_xray_config_listeners[OF assms]
  by (simp add: inbound_def outbound_def routing_rule_def)

text \<open>
  Two URLs: two listeners, the second on port 10802.
\<close>

theorem generate_xray_config_positions_witness:
  "\<exists>config. generate_xray_config [''vless://a@h0:443'', ''vless://c@h2:443''] = Inr config
     \<and> json_get ''inbounds'' config = Some (JList [inbound 0, inbound 1])
     \<and> json_get ''port'' (inbound 1) = Some (JInt 10802)"
proof -
  have p: "parse_all [''vless://a@h0:443'', ''vless://c@h2:443''] =
      Inr [\<lparr>uuid = ''a'', host = ''h0'', port = 443, cfg_remark = [], cfg_type = ''tcp'',
             security = ''none'', sni = [], fp = [], pbk = [], sid = [], path = [],
             host_header = [], serviceName = [], flow = [], alpn = [], encryption = ''none''\<rparr>,
           \<lparr>uuid = ''c'', host = ''h2'', port = 443, cfg_remark = [], cfg_type = ''tcp'',
             security = ''none'', sni = [], fp = [], pbk = [], sid = [], path = [],
             host_header = [], serviceName = [], flow = [], alpn = [], encryption = ''none''\<rparr>]"
    by (simp add: parser_defs Let_def)
  have l: "length [\<lparr>uuid = ''a'', host = ''h0'', port = 443, cfg_remark = [], cfg_type = ''tcp'',
             security = ''none'', sni = [], fp = [], pbk = [], sid = [], path = [],
             host_header = [], serviceName = [], flow = [], alpn = [], encryption = ''none''\<rparr>,
           \<lparr>uuid = ''c'', host = ''h2'', port = 443, cfg_remark = [], cfg_type = ''tcp'',
             security = ''none'', sni = [], fp = [], pbk = [], sid = [], path = [],
             host_header = [], serviceName = [], flow = [], alpn = [], encryption = ''none''\<rparr>] = 2"
    by simp
  from generate_xray_config_positions[OF p, unfolded l] obtain config where
    c: "generate_xray_config [''vless://a@h0:443'', ''vless://c@h2:443''] = Inr config"
      "json_get ''inbounds'' config = Some (JList (map inbound [0..<2]))"
    and port: "json_get ''port'' (inbound 1) = Some (JInt (10801 + int 1))"
    by blast
  have "[0..<2] = [0, 1]" by (simp add: numeral_2_eq_2)
  with c port show ?thesis by (intro exI[of _ config]) simp
qed

end
